theory Spec2Isabelle
  imports Main "HOL-Library.Word"
begin

section \<open>The channel core of cdipipe\<close>

text \<open>
  A shallow embedding of \<^verbatim>\<open>Channel.cpp\<close> and of the two \<^verbatim>\<open>Connection\<close>
  methods \<^verbatim>\<open>add_stream\<close> and \<^verbatim>\<open>get_stream\<close>. Objects held through
  \<^verbatim>\<open>std::shared_ptr\<close> live in the list that owns them, and a shared pointer is the
  position of the object in that list: a stream pointer indexes \<^verbatim>\<open>Channel::streams_\<close>,
  a connection pointer indexes \<^verbatim>\<open>Channel::connections_\<close>. An exception is a value
  of type \<open>error\<close>, returned together with the state reached when it was thrown.
\<close>

subsection \<open>Enumerations\<close>

datatype ConnectionType = Tcp | Cdi

datatype ConnectionMode = Client | Server

datatype ConnectionDirection = In | Out | Both

text \<open>
  Modelled from the spec: the declaration of \<^verbatim>\<open>ConnectionStatus\<close> is not among the
  sources, which only name \<^verbatim>\<open>Closed\<close> and \<^verbatim>\<open>Open\<close>; the spec lists
  \<^verbatim>\<open>status \<in> {Closed, Connecting, Open, Faulted}\<close>.
\<close>

datatype ConnectionStatus = Closed | Connecting | Open | Faulted

text \<open>
  Modelled from the spec: the declaration of \<^verbatim>\<open>PayloadType\<close> is not among the
  sources. \<^verbatim>\<open>Connection::add_stream\<close> names the enumerators \<^verbatim>\<open>Video\<close>,
  \<^verbatim>\<open>Audio\<close> and \<^verbatim>\<open>Ancillary\<close> and has a \<^verbatim>\<open>default\<close> branch for every
  other value, which is \<open>OtherPayloadType\<close> here.
\<close>

datatype PayloadType = Video | Audio | Ancillary | OtherPayloadType

subsection \<open>Errors\<close>

text \<open>
  Every \<^verbatim>\<open>throw\<close> of the sources throws \<^verbatim>\<open>InvalidConfigurationException\<close>; the
  constructors of \<open>message\<close> are its messages, in the order of the sources.
  \<open>AssertionFailure\<close> is the failed \<^verbatim>\<open>assert\<close> of \<^verbatim>\<open>get_connection_buffer\<close>
  and \<open>EmptyBuffer\<close> is \<^verbatim>\<open>front\<close> or \<^verbatim>\<open>pop_front\<close> on an empty
  \<^verbatim>\<open>PayloadBuffer\<close>, which the spec leaves undefined.
\<close>

datatype message =
    FailedToMapUnknownConnection string
  | AlreadyAssigned "16 word" string string
  | NoStreamAssigned string
  | UnrecognizedStream "16 word"
  | MappedToUnknownConnection "16 word" string
  | MappedToUnknownStream string "16 word"
  | UnsupportedPayloadType

datatype error = InvalidConfiguration message | AssertionFailure | EmptyBuffer

subsection \<open>Payloads and payload buffers\<close>

text \<open>
  Modelled from the spec: \<^verbatim>\<open>Payload.h\<close> is not among the sources. The router reads
  \<^verbatim>\<open>stream_identifier()\<close> only; \<^verbatim>\<open>sequence()\<close> and \<^verbatim>\<open>get_size()\<close> appear in
  log lines.
\<close>

record Payload =
  payload_stream_identifier :: "16 word"
  sequence :: nat
  payload_size :: nat

text \<open>
  Modelled from the spec: \<^verbatim>\<open>PayloadBuffer.cpp\<close> is not among the sources, only the
  class declaration, which wraps a \<^verbatim>\<open>boost::circular_buffer<Payload>\<close>. The spec:
  a bounded FIFO with capacity fixed at construction; \<^verbatim>\<open>enqueue(p)\<close> pushes \<open>p\<close> at
  the tail if the buffer is not full, else discards \<open>p\<close>; \<^verbatim>\<open>front()\<close> returns the head;
  \<^verbatim>\<open>pop_front()\<close> removes the head; \<^verbatim>\<open>clear()\<close> drops all held payloads. A
  circular buffer is full when its size equals its capacity.
\<close>

record PayloadBuffer =
  capacity :: nat
  buffer :: "Payload list"

definition PayloadBuffer_new :: "nat \<Rightarrow> PayloadBuffer" where
  "PayloadBuffer_new buffer_capacity = \<lparr>capacity = buffer_capacity, buffer = []\<rparr>"

definition PayloadBuffer_size :: "PayloadBuffer \<Rightarrow> nat" where
  "PayloadBuffer_size b = length (buffer b)"

definition is_full :: "PayloadBuffer \<Rightarrow> bool" where
  "is_full b = (PayloadBuffer_size b = capacity b)"

definition is_empty :: "PayloadBuffer \<Rightarrow> bool" where
  "is_empty b = (buffer b = [])"

definition enqueue :: "Payload \<Rightarrow> PayloadBuffer \<Rightarrow> PayloadBuffer" where
  "enqueue item b = (if is_full b then b else b\<lparr>buffer := buffer b @ [item]\<rparr>)"

definition front :: "PayloadBuffer \<Rightarrow> Payload option" where
  "front b = (case buffer b of [] \<Rightarrow> None | p # _ \<Rightarrow> Some p)"

definition pop_front :: "PayloadBuffer \<Rightarrow> PayloadBuffer option" where
  "pop_front b = (case buffer b of [] \<Rightarrow> None | _ # ps \<Rightarrow> Some (b\<lparr>buffer := ps\<rparr>))"

definition clear :: "PayloadBuffer \<Rightarrow> PayloadBuffer" where
  "clear b = b\<lparr>buffer := []\<rparr>"

subsection \<open>Streams\<close>

text \<open>
  Modelled from the spec: \<^verbatim>\<open>Stream.h\<close> and the three stream classes are not among
  the sources. The spec: a stream descriptor has an \<^verbatim>\<open>id: u16\<close>, a
  \<^verbatim>\<open>payload_type\<close> and atomic counters; \<^verbatim>\<open>received_payload()\<close>,
  \<^verbatim>\<open>transmitted_payload()\<close> and \<^verbatim>\<open>payload_error()\<close> each increment a counter and
  return the new value; the variants differ only in attached metadata and in the
  payload type tag. The width of the counters is not in the sources: they are
  natural numbers here. The metadata are the constructor arguments that
  \<^verbatim>\<open>Channel::add_video_stream\<close> and \<^verbatim>\<open>Channel::add_audio_stream\<close> pass on; the
  two audio enumerations are kept as their enumerator values.
\<close>

datatype StreamDetails =
    VideoDetails int int int int int
  | AudioDetails nat nat int string
  | AncillaryDetails

record Stream =
  stream_id :: "16 word"
  payload_type :: PayloadType
  details :: StreamDetails
  payloads_received :: nat
  payloads_transmitted :: nat
  payload_errors :: nat

definition Stream_new :: "16 word \<Rightarrow> PayloadType \<Rightarrow> StreamDetails \<Rightarrow> Stream" where
  "Stream_new stream_identifier t d =
     \<lparr>stream_id = stream_identifier, payload_type = t, details = d,
      payloads_received = 0, payloads_transmitted = 0, payload_errors = 0\<rparr>"

definition received_payload :: "Stream \<Rightarrow> nat \<times> Stream" where
  "received_payload s =
     (payloads_received s + 1, s\<lparr>payloads_received := payloads_received s + 1\<rparr>)"

definition transmitted_payload :: "Stream \<Rightarrow> nat \<times> Stream" where
  "transmitted_payload s =
     (payloads_transmitted s + 1, s\<lparr>payloads_transmitted := payloads_transmitted s + 1\<rparr>)"

definition payload_error :: "Stream \<Rightarrow> nat \<times> Stream" where
  "payload_error s =
     (payload_errors s + 1, s\<lparr>payload_errors := payload_errors s + 1\<rparr>)"

subsection \<open>Connections\<close>

text \<open>
  The members that \<^verbatim>\<open>Connection::Connection\<close> initialises. \<open>get_type\<close> is the class
  of the object (\<^verbatim>\<open>TcpConnection\<close> or \<^verbatim>\<open>CdiConnection\<close>), which
  \<^verbatim>\<open>get_type()\<close> reports; \<open>bound_streams\<close> is \<^verbatim>\<open>Connection::streams_\<close>, a list
  of stream pointers.
\<close>

record Connection =
  get_name :: string
  get_host_name :: string
  get_port_number :: "16 word"
  get_mode :: ConnectionMode
  get_direction :: ConnectionDirection
  get_type :: ConnectionType
  get_status :: ConnectionStatus
  bound_streams :: "nat list"
  connection_payloads_received :: nat
  connection_payloads_transmitted :: nat
  connection_payload_errors :: nat

text \<open>\<^verbatim>\<open>std::find_if\<close>: the position of the first element that satisfies \<open>P\<close>,
  \<open>None\<close> for the end iterator.\<close>

fun find_if :: "('a \<Rightarrow> bool) \<Rightarrow> 'a list \<Rightarrow> nat option" where
  "find_if P [] = None"
| "find_if P (x # xs) = (if P x then Some 0 else map_option Suc (find_if P xs))"

definition Connection_new ::
  "ConnectionType \<Rightarrow> string \<Rightarrow> string \<Rightarrow> 16 word \<Rightarrow> ConnectionMode \<Rightarrow> ConnectionDirection
     \<Rightarrow> Connection" where
  "Connection_new connection_type name host_name port_number connection_mode
       connection_direction =
     \<lparr>get_name = name, get_host_name = host_name, get_port_number = port_number,
      get_mode = connection_mode, get_direction = connection_direction, get_type = connection_type,
      get_status = Closed, bound_streams = [],
      connection_payloads_received = 0, connection_payloads_transmitted = 0,
      connection_payload_errors = 0\<rparr>"

text \<open>
  \<^verbatim>\<open>Connection::add_stream\<close>. The first argument is the list the stream pointer
  points into. The result is the exception, if one is thrown, and the connection as it
  is when the method returns or throws.
\<close>

definition Connection_add_stream ::
  "Stream list \<Rightarrow> nat \<Rightarrow> Connection \<Rightarrow> error option \<times> Connection" where
  "Connection_add_stream heap stream c =
     (case payload_type (heap ! stream) of
        Video \<Rightarrow> (None, c\<lparr>bound_streams := bound_streams c @ [stream]\<rparr>)
      | Audio \<Rightarrow> (None, c\<lparr>bound_streams := bound_streams c @ [stream]\<rparr>)
      | Ancillary \<Rightarrow> (None, c\<lparr>bound_streams := bound_streams c @ [stream]\<rparr>)
      | OtherPayloadType \<Rightarrow> (Some (InvalidConfiguration UnsupportedPayloadType), c))"

text \<open>
  \<^verbatim>\<open>Connection::get_stream\<close>. The result is \<open>None\<close> where the source dereferences
  \<^verbatim>\<open>begin(streams_)\<close> of an empty list, which is undefined behaviour.
\<close>

definition Connection_get_stream :: "Stream list \<Rightarrow> Connection \<Rightarrow> 16 word \<Rightarrow> nat option" where
  "Connection_get_stream heap c stream_identifier =
     (case (if stream_identifier \<noteq> 0
            then find_if (\<lambda>stream. stream_id (heap ! stream) = stream_identifier) (bound_streams c)
            else None) of
        Some k \<Rightarrow> Some (bound_streams c ! k)
      | None \<Rightarrow> (case bound_streams c of [] \<Rightarrow> None | stream # _ \<Rightarrow> Some stream))"

subsection \<open>The channel\<close>

text \<open>
  The transports, the logger, the executor and the caller's handler are not part of the
  sources. A call the router makes on one of them is recorded in \<open>calls\<close>, in the
  order of the calls; what the transport does with it arrives later, as a call of the
  completion handler. Of the log lines only those written with \<^verbatim>\<open>LOG_WARNING\<close> are
  recorded.
\<close>

type_synonym error_code = int

datatype warning =
    BufferFull string nat
  | NotReady string
  | ReceiveError error_code
  | TransmitError error_code

datatype call =
    AsyncConnect nat
  | AsyncAccept nat
  | AsyncReceive nat
  | AsyncTransmit nat Payload nat
  | PostAsyncWrite nat error_code
  | Handler error_code
  | LogWarning warning

text \<open>A log line, as opposed to a call on a transport, the executor or the handler.\<close>

fun is_log :: "call \<Rightarrow> bool" where
  "is_log (LogWarning w) = True"
| "is_log c = False"

text \<open>
  Modelled from the spec: \<^verbatim>\<open>Channel.h\<close> is not among the sources. The members are
  those \<^verbatim>\<open>Channel.cpp\<close> uses. \<open>channel_map\<close> is the bimap, which the spec
  describes as many-to-many and queryable in both directions; it is the list of its
  \<open>(connection_name, stream_id)\<close> pairs in the order of insertion, and the two
  \<^verbatim>\<open>equal_range\<close> views are the pairs with the given left or right key, in that
  order. \<open>connection_buffers\<close> maps a connection name to its buffer and the overflow
  latch. \<open>active\<close> says that the \<^verbatim>\<open>active_\<close> pointer is not null.
\<close>

record Channel =
  connections :: "Connection list"
  streams :: "Stream list"
  channel_map :: "(string \<times> 16 word) list"
  connection_buffers :: "string \<rightharpoonup> (PayloadBuffer \<times> bool)"
  active :: bool
  calls :: "call list"

type_synonym outcome = "error option \<times> Channel"

definition Channel_new :: Channel where
  "Channel_new =
     \<lparr>connections = [], streams = [], channel_map = [],
      connection_buffers = Map.empty, active = False, calls = []\<rparr>"

definition is_active :: "Channel \<Rightarrow> bool" where
  "is_active ch = active ch"

definition emit :: "call \<Rightarrow> Channel \<Rightarrow> Channel" where
  "emit c ch = ch\<lparr>calls := calls ch @ [c]\<rparr>"

definition left_equal_range :: "(string \<times> 16 word) list \<Rightarrow> string \<Rightarrow> 16 word list" where
  "left_equal_range m connection_name = map snd (filter (\<lambda>e. fst e = connection_name) m)"

definition right_equal_range :: "(string \<times> 16 word) list \<Rightarrow> 16 word \<Rightarrow> string list" where
  "right_equal_range m stream_identifier = map fst (filter (\<lambda>e. snd e = stream_identifier) m)"

subsection \<open>Lookups\<close>

definition get_stream :: "Channel \<Rightarrow> 16 word \<Rightarrow> error + nat" where
  "get_stream ch stream_identifier =
     (case find_if (\<lambda>stream. stream_id stream = stream_identifier) (streams ch) of
        None \<Rightarrow> Inl (InvalidConfiguration (UnrecognizedStream stream_identifier))
      | Some stream \<Rightarrow> Inr stream)"

text \<open>The loop of \<^verbatim>\<open>get_stream_connections\<close> over the entries of the right view;
  the last argument is the vector built so far.\<close>

fun stream_connections_loop ::
  "Connection list \<Rightarrow> 16 word \<Rightarrow> ConnectionDirection \<Rightarrow> string list \<Rightarrow> nat list
     \<Rightarrow> error + nat list" where
  "stream_connections_loop cs stream_identifier direction [] stream_connections =
     Inr stream_connections"
| "stream_connections_loop cs stream_identifier direction (n # ns) stream_connections =
     (case find_if (\<lambda>connection. get_name connection = n) cs of
        None \<Rightarrow> Inl (InvalidConfiguration (MappedToUnknownConnection stream_identifier n))
      | Some connection \<Rightarrow>
          stream_connections_loop cs stream_identifier direction ns
            (if Both = direction \<or> get_direction (cs ! connection) = direction
             then stream_connections @ [connection] else stream_connections))"

definition get_stream_connections ::
  "Channel \<Rightarrow> 16 word \<Rightarrow> ConnectionDirection \<Rightarrow> error + nat list" where
  "get_stream_connections ch stream_identifier direction =
     stream_connections_loop (connections ch) stream_identifier direction
       (right_equal_range (channel_map ch) stream_identifier) []"

fun connection_streams_loop ::
  "Stream list \<Rightarrow> string \<Rightarrow> 16 word list \<Rightarrow> nat list \<Rightarrow> error + nat list" where
  "connection_streams_loop ss connection_name [] connection_streams = Inr connection_streams"
| "connection_streams_loop ss connection_name (i # ids) connection_streams =
     (case find_if (\<lambda>stream. stream_id stream = i) ss of
        None \<Rightarrow> Inl (InvalidConfiguration (MappedToUnknownStream connection_name i))
      | Some stream \<Rightarrow>
          connection_streams_loop ss connection_name ids (connection_streams @ [stream]))"

definition get_connection_streams :: "Channel \<Rightarrow> string \<Rightarrow> error + nat list" where
  "get_connection_streams ch connection_name =
     connection_streams_loop (streams ch) connection_name
       (left_equal_range (channel_map ch) connection_name) []"

subsection \<open>Configuration\<close>

text \<open>
  \<^verbatim>\<open>add_input\<close> and \<^verbatim>\<open>add_output\<close>. \<^verbatim>\<open>Connection::get_connection\<close> throws for a
  connection type other than \<^verbatim>\<open>Cdi\<close> and \<^verbatim>\<open>Tcp\<close>, which \<open>ConnectionType\<close> does
  not have. \<^verbatim>\<open>try_emplace\<close> keeps the entry of a name that has one.
\<close>

definition try_emplace ::
  "string \<Rightarrow> nat \<Rightarrow> (string \<rightharpoonup> (PayloadBuffer \<times> bool)) \<Rightarrow> (string \<rightharpoonup> (PayloadBuffer \<times> bool))"
  where
  "try_emplace name buffer_size m =
     (case m name of
        None \<Rightarrow> m(name \<mapsto> (PayloadBuffer_new buffer_size, False))
      | Some _ \<Rightarrow> m)"

definition add_input ::
  "ConnectionType \<Rightarrow> string \<Rightarrow> string \<Rightarrow> 16 word \<Rightarrow> ConnectionMode \<Rightarrow> nat \<Rightarrow> Channel
     \<Rightarrow> Channel" where
  "add_input connection_type name host_name port_number connection_mode buffer_size ch =
     ch\<lparr>connection_buffers := try_emplace name buffer_size (connection_buffers ch),
        connections := connections ch @
          [Connection_new connection_type name host_name port_number connection_mode In]\<rparr>"

definition add_output ::
  "ConnectionType \<Rightarrow> string \<Rightarrow> string \<Rightarrow> 16 word \<Rightarrow> ConnectionMode \<Rightarrow> nat \<Rightarrow> Channel
     \<Rightarrow> Channel" where
  "add_output connection_type name host_name port_number connection_mode buffer_size ch =
     ch\<lparr>connection_buffers := try_emplace name buffer_size (connection_buffers ch),
        connections := connections ch @
          [Connection_new connection_type name host_name port_number connection_mode Out]\<rparr>"

definition add_video_stream ::
  "16 word \<Rightarrow> int \<Rightarrow> int \<Rightarrow> int \<Rightarrow> int \<Rightarrow> int \<Rightarrow> Channel \<Rightarrow> Channel" where
  "add_video_stream stream_identifier frame_width frame_height bytes_per_pixel
       frame_rate_numerator frame_rate_denominator ch =
     ch\<lparr>streams := streams ch @
          [Stream_new stream_identifier Video
             (VideoDetails frame_width frame_height bytes_per_pixel
                frame_rate_numerator frame_rate_denominator)]\<rparr>"

definition add_audio_stream ::
  "16 word \<Rightarrow> nat \<Rightarrow> nat \<Rightarrow> int \<Rightarrow> string \<Rightarrow> Channel \<Rightarrow> Channel" where
  "add_audio_stream stream_identifier channel_grouping audio_sampling_rate bytes_per_sample
       language ch =
     ch\<lparr>streams := streams ch @
          [Stream_new stream_identifier Audio
             (AudioDetails channel_grouping audio_sampling_rate bytes_per_sample language)]\<rparr>"

definition add_ancillary_stream :: "16 word \<Rightarrow> Channel \<Rightarrow> Channel" where
  "add_ancillary_stream stream_identifier ch =
     ch\<lparr>streams := streams ch @ [Stream_new stream_identifier Ancillary AncillaryDetails]\<rparr>"

text \<open>
  \<^verbatim>\<open>map_stream\<close>. The connection that \<^verbatim>\<open>add_stream\<close> leaves behind is written back
  whether it throws or not, as the method works on the object in place.
\<close>

definition map_stream :: "16 word \<Rightarrow> string \<Rightarrow> Channel \<Rightarrow> outcome" where
  "map_stream stream_identifier connection_name ch =
     (case find_if (\<lambda>connection. get_name connection = connection_name) (connections ch) of
        None \<Rightarrow> (Some (InvalidConfiguration (FailedToMapUnknownConnection connection_name)), ch)
      | Some connection \<Rightarrow>
          (case (if get_direction (connections ch ! connection) = In
                 then (case get_stream_connections ch stream_identifier In of
                         Inl e \<Rightarrow> Some e
                       | Inr stream_connections \<Rightarrow>
                           if length stream_connections > 0
                           then Some (InvalidConfiguration
                                  (AlreadyAssigned stream_identifier
                                     (get_name (connections ch ! (stream_connections ! 0)))
                                     connection_name))
                           else None)
                 else None) of
             Some e \<Rightarrow> (Some e, ch)
           | None \<Rightarrow>
               (case get_stream ch stream_identifier of
                  Inl e \<Rightarrow> (Some e, ch)
                | Inr stream \<Rightarrow>
                    (case Connection_add_stream (streams ch) stream
                            (connections ch ! connection) of
                       (Some e, c) \<Rightarrow>
                         (Some e, ch\<lparr>connections := (connections ch)[connection := c]\<rparr>)
                     | (None, c) \<Rightarrow>
                         (None, ch\<lparr>connections := (connections ch)[connection := c],
                                   channel_map := channel_map ch @
                                     [(connection_name, stream_identifier)]\<rparr>)))))"

fun validate_loop :: "(string \<times> 16 word) list \<Rightarrow> Connection list \<Rightarrow> error option" where
  "validate_loop m [] = None"
| "validate_loop m (connection # cs) =
     (if left_equal_range m (get_name connection) = []
      then Some (InvalidConfiguration (NoStreamAssigned (get_name connection)))
      else validate_loop m cs)"

definition validate_configuration :: "Channel \<Rightarrow> outcome" where
  "validate_configuration ch = (validate_loop (channel_map ch) (connections ch), ch)"

subsection \<open>The overflow latch\<close>

text \<open>
  \<^verbatim>\<open>static_cast<size_t>(buffer_capacity * 0.8)\<close>: the product is computed in double
  precision and truncated. The double nearest to 0.8 exceeds it by a factor of
  \<open>1 + 2 ^ -54\<close>. For every capacity below \<open>2 ^ 48\<close> (a circular buffer of more
  payloads cannot be allocated) the computed product therefore differs from
  \<open>4 * buffer_capacity / 5\<close> by less than \<open>1 / 5\<close>, and it is that quotient when the
  quotient is an integer; so the truncated product is the integer quotient.
\<close>

definition low_water_mark :: "nat \<Rightarrow> nat" where
  "low_water_mark buffer_capacity = (buffer_capacity * 4) div 5"

text \<open>
  \<^verbatim>\<open>get_connection_buffer\<close> returns a reference to the buffer; here it returns the
  buffer, and the caller writes the buffer back with \<open>update_buffer\<close> when it changes it.
\<close>

definition update_buffer :: "string \<Rightarrow> (PayloadBuffer \<Rightarrow> PayloadBuffer) \<Rightarrow> Channel \<Rightarrow> Channel" where
  "update_buffer connection_name f ch =
     (case connection_buffers ch connection_name of
        None \<Rightarrow> ch
      | Some (b, latched) \<Rightarrow>
          ch\<lparr>connection_buffers := (connection_buffers ch)(connection_name \<mapsto> (f b, latched))\<rparr>)"

text \<open>The number of payloads held by the buffer of a connection name.\<close>

definition queued :: "Channel \<Rightarrow> string \<Rightarrow> nat" where
  "queued ch connection_name =
     (case connection_buffers ch connection_name of
        None \<Rightarrow> 0
      | Some (b, latched) \<Rightarrow> PayloadBuffer_size b)"

definition get_connection_buffer ::
  "string \<Rightarrow> Channel \<Rightarrow> (error + PayloadBuffer) \<times> Channel" where
  "get_connection_buffer connection_name ch =
     (case connection_buffers ch connection_name of
        None \<Rightarrow> (Inl AssertionFailure, ch)
      | Some (b, latched) \<Rightarrow>
          (let buffer_size = PayloadBuffer_size b;
               (ch1, latched1) =
                 (if is_full b
                  then (if \<not> latched
                        then (emit (LogWarning (BufferFull connection_name (capacity b))) ch, True)
                        else (ch, latched))
                  else (ch, latched));
               latched2 =
                 (if latched1 then buffer_size > low_water_mark (capacity b) else latched1)
           in (Inr b,
               ch1\<lparr>connection_buffers :=
                     (connection_buffers ch1)(connection_name \<mapsto> (b, latched2))\<rparr>)))"

subsection \<open>Opening connections\<close>

text \<open>The body of the loop of \<^verbatim>\<open>open_connections\<close> for one connection pointer, and
  the loop over \<^verbatim>\<open>connections_\<close>.\<close>

definition open_connection :: "nat \<Rightarrow> Channel \<Rightarrow> Channel" where
  "open_connection connection ch =
     (if get_status (connections ch ! connection) = Closed
      then (if get_mode (connections ch ! connection) = Client
            then emit (AsyncConnect connection) ch
            else emit (AsyncAccept connection) ch)
      else ch)"

definition open_connections :: "Channel \<Rightarrow> Channel" where
  "open_connections ch = fold open_connection [0..<length (connections ch)] ch"

text \<open>The call \<^verbatim>\<open>open_connections\<close> makes on a closed connection.\<close>

definition dial :: "Connection list \<Rightarrow> nat \<Rightarrow> call" where
  "dial cs i = (if get_mode (cs ! i) = Client then AsyncConnect i else AsyncAccept i)"

subsection \<open>The read loop\<close>

definition on_stream :: "nat \<Rightarrow> (Stream \<Rightarrow> nat \<times> Stream) \<Rightarrow> Channel \<Rightarrow> nat \<times> Channel" where
  "on_stream stream method ch =
     (fst (method (streams ch ! stream)),
      ch\<lparr>streams := (streams ch)[stream := snd (method (streams ch ! stream))]\<rparr>)"

definition async_read :: "nat \<Rightarrow> error_code \<Rightarrow> Channel \<Rightarrow> Channel" where
  "async_read connection ec ch =
     (if \<not> is_active ch then ch
      else if ec \<noteq> 0 then
        (if get_status (connections ch ! connection) \<noteq> Open
         then open_connections
                (emit (LogWarning (NotReady (get_name (connections ch ! connection)))) ch)
         else emit (AsyncReceive connection) (emit (LogWarning (ReceiveError ec)) ch))
      else emit (AsyncReceive connection) ch)"

text \<open>The body of the loop of \<^verbatim>\<open>read_complete\<close> for one output connection of the
  stream, and the loop; an exception thrown by the body ends the loop.\<close>

definition queue_payload_output :: "Payload \<Rightarrow> nat \<Rightarrow> nat \<Rightarrow> Channel \<Rightarrow> outcome" where
  "queue_payload_output payload stream output_connection ch =
     (if Open \<noteq> get_status (connections ch ! output_connection)
      then (None, open_connections ch)
      else
        (let connection_name = get_name (connections ch ! output_connection)
         in case get_connection_buffer connection_name ch of
              (Inl e, ch1) \<Rightarrow> (Some e, ch1)
            | (Inr connection_buffer, ch1) \<Rightarrow>
                (let ch2 = (if is_full connection_buffer
                            then snd (on_stream stream payload_error ch1) else ch1);
                     ch3 = update_buffer connection_name (enqueue payload) ch2
                 in (None, ch3))))"

fun queue_payload :: "Payload \<Rightarrow> nat \<Rightarrow> nat list \<Rightarrow> Channel \<Rightarrow> outcome" where
  "queue_payload payload stream [] ch = (None, ch)"
| "queue_payload payload stream (output_connection # outputs) ch =
     (case queue_payload_output payload stream output_connection ch of
        (Some e, ch1) \<Rightarrow> (Some e, ch1)
      | (None, ch1) \<Rightarrow> queue_payload payload stream outputs ch1)"

definition read_complete :: "nat \<Rightarrow> error_code \<Rightarrow> Payload \<Rightarrow> Channel \<Rightarrow> outcome" where
  "read_complete connection ec payload ch =
     (case get_stream ch (payload_stream_identifier payload) of
        Inl e \<Rightarrow> (Some e, ch)
      | Inr stream \<Rightarrow>
          (let (payloads_received, ch1) = on_stream stream received_payload ch;
               ch2 = (if ec \<noteq> 0 then snd (on_stream stream payload_error ch1) else ch1)
           in case (if \<not> ec \<noteq> 0
                    then (case get_stream_connections ch2 (payload_stream_identifier payload) Out of
                            Inl e \<Rightarrow> (Some e, ch2)
                          | Inr outputs \<Rightarrow> queue_payload payload stream outputs ch2)
                    else (None, ch2)) of
                (Some e, ch3) \<Rightarrow> (Some e, ch3)
              | (None, ch3) \<Rightarrow>
                  (None, if get_type (connections ch3 ! connection) \<noteq> Cdi
                         then async_read connection ec ch3 else ch3)))"

subsection \<open>The write loop\<close>

definition async_write :: "nat \<Rightarrow> error_code \<Rightarrow> Channel \<Rightarrow> outcome" where
  "async_write connection ec ch =
     (if \<not> is_active ch then (None, ch)
      else if ec \<noteq> 0 \<and> get_status (connections ch ! connection) \<noteq> Open
      then (None, open_connections
                    (emit (LogWarning (NotReady (get_name (connections ch ! connection)))) ch))
      else
        (let ch1 = (if ec \<noteq> 0 then emit (LogWarning (TransmitError ec)) ch else ch)
         in case get_connection_buffer (get_name (connections ch1 ! connection)) ch1 of
              (Inl e, ch2) \<Rightarrow> (Some e, ch2)
            | (Inr connection_buffer, ch2) \<Rightarrow>
                if is_empty connection_buffer
                then (None, emit (PostAsyncWrite connection ec) ch2)
                else (case front connection_buffer of
                        None \<Rightarrow> (Some EmptyBuffer, ch2)
                      | Some payload \<Rightarrow>
                          (case get_stream ch2 (payload_stream_identifier payload) of
                             Inl e \<Rightarrow> (Some e, ch2)
                           | Inr stream \<Rightarrow>
                               (None, emit (AsyncTransmit connection payload stream) ch2)))))"

definition write_complete :: "nat \<Rightarrow> nat \<Rightarrow> error_code \<Rightarrow> Channel \<Rightarrow> outcome" where
  "write_complete connection stream ec ch =
     (let (payloads_transmitted, ch1) = on_stream stream transmitted_payload ch;
          ch2 = (if ec \<noteq> 0 then snd (on_stream stream payload_error ch1) else ch1);
          connection_name = get_name (connections ch2 ! connection)
      in case get_connection_buffer connection_name ch2 of
           (Inl e, ch3) \<Rightarrow> (Some e, ch3)
         | (Inr connection_buffer, ch3) \<Rightarrow>
             (case pop_front connection_buffer of
                None \<Rightarrow> (Some EmptyBuffer, ch3)
              | Some popped \<Rightarrow>
                  async_write connection ec (update_buffer connection_name (\<lambda>_. popped) ch3)))"

subsection \<open>The completion of a dial or accept\<close>

text \<open>The two nested loops of the connection handler, which clear the buffer of every
  output of every stream of the input connection.\<close>

fun clear_outputs :: "nat list \<Rightarrow> Channel \<Rightarrow> outcome" where
  "clear_outputs [] ch = (None, ch)"
| "clear_outputs (output # outputs) ch =
     (let connection_name = get_name (connections ch ! output)
      in case get_connection_buffer connection_name ch of
           (Inl e, ch1) \<Rightarrow> (Some e, ch1)
         | (Inr _, ch1) \<Rightarrow> clear_outputs outputs (update_buffer connection_name clear ch1))"

fun clear_stream_outputs :: "nat list \<Rightarrow> Channel \<Rightarrow> outcome" where
  "clear_stream_outputs [] ch = (None, ch)"
| "clear_stream_outputs (stream # ss) ch =
     (case get_stream_connections ch (stream_id (streams ch ! stream)) Out of
        Inl e \<Rightarrow> (Some e, ch)
      | Inr outputs \<Rightarrow>
          (case clear_outputs outputs ch of
             (Some e, ch1) \<Rightarrow> (Some e, ch1)
           | (None, ch1) \<Rightarrow> clear_stream_outputs ss ch1))"

text \<open>The lambda \<^verbatim>\<open>connection_handler\<close> of \<^verbatim>\<open>open_connections\<close>, which the
  transport calls when the dial or accept of the connection completes.\<close>

definition connection_handler :: "nat \<Rightarrow> error_code \<Rightarrow> Channel \<Rightarrow> outcome" where
  "connection_handler connection ec ch =
     (if \<not> ec \<noteq> 0 then
        (if is_active ch \<and> In = get_direction (connections ch ! connection)
         then
           (let ch1 = (if get_type (connections ch ! connection) \<noteq> Cdi
                       then async_read connection 0 ch
                       else emit (AsyncReceive connection) ch)
            in case get_connection_streams ch1 (get_name (connections ch1 ! connection)) of
                 Inl e \<Rightarrow> (Some e, ch1)
               | Inr ss \<Rightarrow> clear_stream_outputs ss ch1)
         else async_write connection 0 ch)
      else (None, emit (Handler ec) ch))"

subsection \<open>Completions\<close>

text \<open>
  The callbacks the router hands out: \<^verbatim>\<open>connection_handler\<close> to
  \<^verbatim>\<open>async_connect\<close> and \<^verbatim>\<open>async_accept\<close>, \<^verbatim>\<open>read_complete\<close> to
  \<^verbatim>\<open>async_receive\<close>, \<^verbatim>\<open>write_complete\<close> to \<^verbatim>\<open>async_transmit\<close>, and
  \<^verbatim>\<open>async_write\<close> to the executor with \<^verbatim>\<open>post\<close>. A transport or the
  executor runs the router by calling one of them.
\<close>

datatype completion =
    ConnectionCompleted nat error_code
  | ReadCompleted nat error_code Payload
  | WriteCompleted nat nat error_code
  | WritePosted nat error_code

fun deliver :: "completion \<Rightarrow> Channel \<Rightarrow> outcome" where
  "deliver (ConnectionCompleted connection ec) ch = connection_handler connection ec ch"
| "deliver (ReadCompleted connection ec payload) ch = read_complete connection ec payload ch"
| "deliver (WriteCompleted connection stream ec) ch = write_complete connection stream ec ch"
| "deliver (WritePosted connection ec) ch = async_write connection ec ch"

text \<open>A step from \<open>s\<close> to \<open>s'\<close> that keeps the connections and the activity of the
  channel and calls \<^verbatim>\<open>async_receive\<close> on connection \<open>k\<close> no further time.\<close>

definition unarmed :: "nat \<Rightarrow> Channel \<Rightarrow> Channel \<Rightarrow> bool" where
  "unarmed k s s' \<longleftrightarrow>
     connections s' = connections s \<and> active s' = active s \<and>
     count_list (calls s') (AsyncReceive k) = count_list (calls s) (AsyncReceive k)"

subsection \<open>Example channels\<close>

text \<open>
  A channel with two inputs, one output and two streams, before any stream is mapped;
  the same channel with every connection mapped; and the mapped channel started, with
  every connection open.
\<close>

definition example_setup :: Channel where
  "example_setup =
     add_audio_stream 200 0 0 2 ''eng''
       (add_video_stream 100 1920 1080 4 60 1
          (add_output Tcp ''out0'' ''localhost'' 2001 Client 5
             (add_input Cdi ''in1'' ''localhost'' 2002 Server 4
                (add_input Tcp ''in0'' ''localhost'' 2000 Server 4 Channel_new))))"

definition example_mapped :: Channel where
  "example_mapped =
     snd (map_stream 200 ''in1''
       (snd (map_stream 100 ''out0'' (snd (map_stream 100 ''in0'' example_setup)))))"

definition example_open :: Channel where
  "example_open =
     example_mapped\<lparr>connections := map (\<lambda>c. c\<lparr>get_status := Open\<rparr>) (connections example_mapped),
                    active := True\<rparr>"

text \<open>
  The mapped channel with the second stream mapped to the output as well; a payload of
  the first stream; and the started channel with the output's buffer holding one
  payload, holding five (full, latch clear), and holding four with the latch set.
\<close>

definition example_both :: Channel where
  "example_both = snd (map_stream 200 ''out0'' example_mapped)"

definition example_payload :: Payload where
  "example_payload = \<lparr>payload_stream_identifier = 100, sequence = 0, payload_size = 1024\<rparr>"

definition example_queued :: Channel where
  "example_queued =
     example_open\<lparr>connection_buffers := (connection_buffers example_open)
       (''out0'' \<mapsto> (\<lparr>capacity = 5, buffer = [example_payload]\<rparr>, False))\<rparr>"

definition example_full :: Channel where
  "example_full =
     example_open\<lparr>connection_buffers := (connection_buffers example_open)
       (''out0'' \<mapsto> (\<lparr>capacity = 5, buffer = replicate 5 example_payload\<rparr>, False))\<rparr>"

text \<open>The started channel with the output closed again, and a payload of a stream
  that is not registered.\<close>

definition example_closed :: Channel where
  "example_closed =
     example_open\<lparr>connections := (connections example_open)
       [2 := (connections example_open ! 2)\<lparr>get_status := Closed\<rparr>]\<rparr>"

definition example_unregistered :: Payload where
  "example_unregistered = \<lparr>payload_stream_identifier = 999, sequence = 0, payload_size = 1024\<rparr>"

definition example_latched :: Channel where
  "example_latched =
     example_open\<lparr>connection_buffers := (connection_buffers example_open)
       (''out0'' \<mapsto> (\<lparr>capacity = 5, buffer = replicate 4 example_payload\<rparr>, True))\<rparr>"

section \<open>Properties\<close>

subsection \<open>The example channels, evaluated\<close>

lemmas example_defs =
  example_setup_def example_mapped_def example_open_def Channel_new_def add_input_def
  add_output_def add_video_stream_def add_audio_stream_def try_emplace_def Connection_new_def
  Stream_new_def PayloadBuffer_new_def map_stream_def get_stream_def get_stream_connections_def
  right_equal_range_def Connection_add_stream_def

lemma example_mapped_eq:
  "example_mapped =
     \<lparr>connections =
        [(Connection_new Tcp ''in0'' ''localhost'' 2000 Server In)\<lparr>bound_streams := [0]\<rparr>,
         (Connection_new Cdi ''in1'' ''localhost'' 2002 Server In)\<lparr>bound_streams := [1]\<rparr>,
         (Connection_new Tcp ''out0'' ''localhost'' 2001 Client Out)\<lparr>bound_streams := [0]\<rparr>],
      streams =
        [Stream_new 100 Video (VideoDetails 1920 1080 4 60 1),
         Stream_new 200 Audio (AudioDetails 0 0 2 ''eng'')],
      channel_map = [(''in0'', 100), (''out0'', 100), (''in1'', 200)],
      connection_buffers =
        [''in0'' \<mapsto> (PayloadBuffer_new 4, False), ''in1'' \<mapsto> (PayloadBuffer_new 4, False),
         ''out0'' \<mapsto> (PayloadBuffer_new 5, False)],
      active = False, calls = []\<rparr>"
  by (simp add: example_defs)

lemma example_open_eq:
  "example_open =
     \<lparr>connections =
        [(Connection_new Tcp ''in0'' ''localhost'' 2000 Server In)
           \<lparr>bound_streams := [0], get_status := Open\<rparr>,
         (Connection_new Cdi ''in1'' ''localhost'' 2002 Server In)
           \<lparr>bound_streams := [1], get_status := Open\<rparr>,
         (Connection_new Tcp ''out0'' ''localhost'' 2001 Client Out)
           \<lparr>bound_streams := [0], get_status := Open\<rparr>],
      streams =
        [Stream_new 100 Video (VideoDetails 1920 1080 4 60 1),
         Stream_new 200 Audio (AudioDetails 0 0 2 ''eng'')],
      channel_map = [(''in0'', 100), (''out0'', 100), (''in1'', 200)],
      connection_buffers =
        [''in0'' \<mapsto> (PayloadBuffer_new 4, False), ''in1'' \<mapsto> (PayloadBuffer_new 4, False),
         ''out0'' \<mapsto> (PayloadBuffer_new 5, False)],
      active = True, calls = []\<rparr>"
  by (simp add: example_open_def example_mapped_eq Connection_new_def)

lemmas run_defs =
  read_complete_def queue_payload_output_def get_stream_def get_stream_connections_def
  right_equal_range_def
  on_stream_def received_payload_def payload_error_def get_connection_buffer_def
  update_buffer_def enqueue_def is_full_def PayloadBuffer_size_def PayloadBuffer_new_def
  low_water_mark_def async_read_def is_active_def emit_def Connection_new_def Stream_new_def
  Let_def

subsection \<open>Searching a list\<close>

lemma find_if_None: "find_if P xs = None \<longleftrightarrow> (\<forall>x\<in>set xs. \<not> P x)"
  by (induction xs) auto

lemma find_if_Some:
  "find_if P xs = Some i \<Longrightarrow> i < length xs \<and> P (xs ! i) \<and> (\<forall>j<i. \<not> P (xs ! j))"
proof (induction xs arbitrary: i)
  case Nil
  then show ?case by simp
next
  case (Cons x xs)
  show ?case
  proof (cases "P x")
    case True
    with Cons.prems show ?thesis by simp
  next
    case False
    with Cons.prems obtain k where k: "find_if P xs = Some k" "i = Suc k"
      by auto
    from Cons.IH [OF k(1)] False k(2) show ?thesis
      by (auto simp: less_Suc_eq_0_disj)
  qed
qed

subsection \<open>Validating the configuration\<close>

lemma left_equal_range_empty:
  "left_equal_range m n = [] \<longleftrightarrow> (\<forall>i. (n, i) \<notin> set m)"
  by (auto simp: left_equal_range_def filter_empty_conv)

lemma validate_loop_None:
  "validate_loop m cs = None \<longleftrightarrow> (\<forall>c\<in>set cs. left_equal_range m (get_name c) \<noteq> [])"
  by (induction cs) auto

lemma validate_loop_Some:
  "validate_loop m cs = Some e \<Longrightarrow>
     \<exists>c\<in>set cs. left_equal_range m (get_name c) = [] \<and>
       e = InvalidConfiguration (NoStreamAssigned (get_name c))"
  by (induction cs) (auto split: if_splits)

text \<open>
  Claim C6. \<^verbatim>\<open>validate_configuration\<close> throws \<^verbatim>\<open>InvalidConfigurationException\<close>
  if and only if some connection of the channel is the left key of no pair of the
  channel map; it returns normally if and only if every connection has at least one
  stream mapped to it; and it leaves the channel as it is.
\<close>

theorem validate_configuration_iff:
  "((\<exists>msg. fst (validate_configuration ch) = Some (InvalidConfiguration msg)) \<longleftrightarrow>
      (\<exists>c\<in>set (connections ch). \<forall>i. (get_name c, i) \<notin> set (channel_map ch))) \<and>
   (fst (validate_configuration ch) = None \<longleftrightarrow>
      (\<forall>c\<in>set (connections ch). \<exists>i. (get_name c, i) \<in> set (channel_map ch))) \<and>
   snd (validate_configuration ch) = ch"
proof -
  let ?r = "validate_loop (channel_map ch) (connections ch)"
  have none: "?r = None \<longleftrightarrow>
      (\<forall>c\<in>set (connections ch). \<exists>i. (get_name c, i) \<in> set (channel_map ch))"
    by (simp add: validate_loop_None left_equal_range_empty)
  have some: "(\<exists>msg. ?r = Some (InvalidConfiguration msg)) \<longleftrightarrow> ?r \<noteq> None"
    using validate_loop_Some [of "channel_map ch" "connections ch"] by auto
  show ?thesis
    using none some by (auto simp: validate_configuration_def)
qed

text \<open>The mapped example validates, so each of its three connections has a stream;
  the unmapped one is rejected.\<close>

theorem validate_configuration_iff_witness:
  "fst (validate_configuration example_mapped) = None \<and>
   list_all (\<lambda>c. \<exists>i. (get_name c, i) \<in> set (channel_map example_mapped))
     (connections example_mapped) \<and>
   (\<exists>c\<in>set (connections example_setup). \<forall>i. (get_name c, i) \<notin> set (channel_map example_setup)) \<and>
   (\<exists>msg. fst (validate_configuration example_setup) = Some (InvalidConfiguration msg))"
proof -
  have ok: "fst (validate_configuration example_mapped) = None"
    by (simp add: validate_configuration_def left_equal_range_def example_defs)
  have bad: "\<exists>c\<in>set (connections example_setup).
      \<forall>i. (get_name c, i) \<notin> set (channel_map example_setup)"
    by (auto simp: example_defs)
  from ok bad validate_configuration_iff [of example_mapped]
    validate_configuration_iff [of example_setup]
  show ?thesis unfolding list_all_iff by blast
qed

subsection \<open>Opening connections\<close>

lemma open_connection_emit:
  "open_connection i ch =
     ch\<lparr>calls := calls ch @ (if get_status (connections ch ! i) = Closed
                               then [dial (connections ch) i] else [])\<rparr>"
  by (simp add: open_connection_def emit_def dial_def)

lemma fold_open_connection:
  "fold open_connection ns ch =
     ch\<lparr>calls := calls ch @
          map (dial (connections ch))
            (filter (\<lambda>i. get_status (connections ch ! i) = Closed) ns)\<rparr>"
proof (induction ns arbitrary: ch)
  case Nil
  then show ?case by simp
next
  case (Cons n ns)
  have "fold open_connection (n # ns) ch = fold open_connection ns (open_connection n ch)"
    by simp
  also have "\<dots> = (open_connection n ch)\<lparr>calls := calls (open_connection n ch) @
          map (dial (connections (open_connection n ch)))
            (filter (\<lambda>i. get_status (connections (open_connection n ch) ! i) = Closed) ns)\<rparr>"
    by (rule Cons.IH)
  also have "\<dots> = ch\<lparr>calls := calls ch @
          map (dial (connections ch))
            (filter (\<lambda>i. get_status (connections ch ! i) = Closed) (n # ns))\<rparr>"
    by (simp add: open_connection_emit [of n ch])
  finally show ?case .
qed

lemma open_connections_calls:
  "open_connections ch =
     ch\<lparr>calls := calls ch @
          map (dial (connections ch))
            (filter (\<lambda>i. get_status (connections ch ! i) = Closed)
               [0..<length (connections ch)])\<rparr>"
  unfolding open_connections_def by (rule fold_open_connection)

text \<open>
  Claim C7. \<^verbatim>\<open>open_connections\<close> changes nothing but the calls made: it calls
  \<^verbatim>\<open>async_connect\<close> (mode \<^verbatim>\<open>Client\<close>) or \<^verbatim>\<open>async_accept\<close> (any other mode) on
  exactly the connections whose status is \<^verbatim>\<open>Closed\<close>, in the order of the
  connection list, and on no other connection. When every connection is
  \<^verbatim>\<open>Open\<close> it makes no call and leaves the channel as it is.
\<close>

theorem open_connections_only_closed:
  "open_connections ch =
     ch\<lparr>calls := calls ch @
          map (\<lambda>i. if get_mode (connections ch ! i) = Client
                    then AsyncConnect i else AsyncAccept i)
            (filter (\<lambda>i. get_status (connections ch ! i) = Closed)
               [0..<length (connections ch)])\<rparr> \<and>
   ((\<forall>c\<in>set (connections ch). get_status c = Open) \<longrightarrow> open_connections ch = ch)"
proof -
  let ?closed = "filter (\<lambda>i. get_status (connections ch ! i) = Closed)
                   [0..<length (connections ch)]"
  have eq: "open_connections ch = ch\<lparr>calls := calls ch @ map (dial (connections ch)) ?closed\<rparr>"
    by (rule open_connections_calls)
  have "?closed = []" if "\<forall>c\<in>set (connections ch). get_status c = Open"
    using that by (auto simp: filter_empty_conv)
  with eq show ?thesis
    by (auto simp: dial_def [abs_def])
qed

theorem open_connections_only_closed_witness:
  "list_all (\<lambda>c. get_status c = Open) (connections example_open) \<and>
   open_connections example_open = example_open \<and>
   calls (open_connections example_mapped) = [AsyncAccept 0, AsyncAccept 1, AsyncConnect 2]"
proof -
  have all_open: "\<forall>c\<in>set (connections example_open). get_status c = Open"
    by (simp add: example_open_def)
  have conns: "connections example_mapped =
      [(Connection_new Tcp ''in0'' ''localhost'' 2000 Server In)\<lparr>bound_streams := [0]\<rparr>,
       (Connection_new Cdi ''in1'' ''localhost'' 2002 Server In)\<lparr>bound_streams := [1]\<rparr>,
       (Connection_new Tcp ''out0'' ''localhost'' 2001 Client Out)\<lparr>bound_streams := [0]\<rparr>]"
    by (simp add: example_defs)
  have calls: "calls example_mapped = []"
    by (simp add: example_defs)
  from open_connections_only_closed [of example_mapped]
  have "calls (open_connections example_mapped) =
          [AsyncAccept 0, AsyncAccept 1, AsyncConnect 2]"
    unfolding conns calls by (simp add: Connection_new_def upt_rec)
  with all_open open_connections_only_closed [of example_open]
  show ?thesis unfolding list_all_iff by blast
qed

subsection \<open>Streams of a connection\<close>

text \<open>
  Claim C9. For a connection with at least one bound stream,
  \<^verbatim>\<open>Connection::get_stream\<close> returns a bound stream: when the identifier is not 0
  and some bound stream has it, the first bound stream with that identifier; otherwise
  (identifier 0, or no bound stream with it) the first bound stream. For a connection
  with no bound stream the result is undefined.
\<close>

theorem Connection_get_stream_result:
  "(bound_streams c \<noteq> [] \<longrightarrow>
      (\<exists>stream. Connection_get_stream heap c stream_identifier = Some stream \<and>
         stream \<in> set (bound_streams c) \<and>
         (if stream_identifier \<noteq> 0 \<and>
             (\<exists>s\<in>set (bound_streams c). stream_id (heap ! s) = stream_identifier)
          then \<exists>k<length (bound_streams c). stream = bound_streams c ! k \<and>
                 stream_id (heap ! stream) = stream_identifier \<and>
                 (\<forall>j<k. stream_id (heap ! (bound_streams c ! j)) \<noteq> stream_identifier)
          else stream = bound_streams c ! 0))) \<and>
   (bound_streams c = [] \<longrightarrow> Connection_get_stream heap c stream_identifier = None)"
proof (intro conjI impI)
  assume "bound_streams c = []"
  then show "Connection_get_stream heap c stream_identifier = None"
    by (simp add: Connection_get_stream_def)
next
  assume ne: "bound_streams c \<noteq> []"
  let ?P = "\<lambda>stream. stream_id (heap ! stream) = stream_identifier"
  let ?found = "stream_identifier \<noteq> 0 \<and> (\<exists>s\<in>set (bound_streams c). ?P s)"
  show "\<exists>stream. Connection_get_stream heap c stream_identifier = Some stream \<and>
         stream \<in> set (bound_streams c) \<and>
         (if ?found
          then \<exists>k<length (bound_streams c). stream = bound_streams c ! k \<and>
                 stream_id (heap ! stream) = stream_identifier \<and>
                 (\<forall>j<k. stream_id (heap ! (bound_streams c ! j)) \<noteq> stream_identifier)
          else stream = bound_streams c ! 0)"
  proof (cases ?found)
    case True
    then have "find_if ?P (bound_streams c) \<noteq> None"
      by (simp add: find_if_None)
    then obtain k where k: "find_if ?P (bound_streams c) = Some k"
      by blast
    from find_if_Some [OF k] True k show ?thesis
      by (auto simp: Connection_get_stream_def)
  next
    case False
    then have "(if stream_identifier \<noteq> 0 then find_if ?P (bound_streams c) else None) = None"
      by (auto simp: find_if_None)
    with ne False show ?thesis
      by (cases "bound_streams c") (auto simp: Connection_get_stream_def)
  qed
qed

theorem Connection_get_stream_result_witness:
  "bound_streams (connections example_both ! 2) = [0, 1] \<and>
   map stream_id (streams example_both) = [100, 200] \<and>
   Connection_get_stream (streams example_both) (connections example_both ! 2) 200 = Some 1 \<and>
   Connection_get_stream (streams example_both) (connections example_both ! 2) 0 = Some 0 \<and>
   Connection_get_stream (streams example_both) (connections example_both ! 2) 300 = Some 0 \<and>
   Connection_get_stream (streams example_both)
     (Connection_new Tcp ''in0'' ''localhost'' 2000 Server In) 200 = None"
  using Connection_get_stream_result [of "connections example_both ! 2" "streams example_both" 200]
    Connection_get_stream_result [of "connections example_both ! 2" "streams example_both" 0]
    Connection_get_stream_result [of "connections example_both ! 2" "streams example_both" 300]
    Connection_get_stream_result [of "Connection_new Tcp ''in0'' ''localhost'' 2000 Server In"
      "streams example_both" 200]
  by (simp add: example_both_def example_mapped_eq map_stream_def get_stream_def
      Connection_add_stream_def Connection_new_def Stream_new_def Connection_get_stream_def)

subsection \<open>Registering streams\<close>

text \<open>
  Claim C8. The three \<^verbatim>\<open>add_*_stream\<close> methods append the new stream without
  looking for its identifier among the registered streams (each carries the comment
  \<^verbatim>\<open>TODO: validate that stream_identifier is not already defined\<close>): registering
  identifier 7 twice leaves two streams with identifier 7.
\<close>

theorem add_stream_duplicate_id:
  "map stream_id (streams (add_audio_stream 7 0 0 2 ''eng''
      (add_video_stream 7 1920 1080 4 60 1 Channel_new))) = [7, 7] \<and>
   map stream_id (streams (add_ancillary_stream 7 (add_ancillary_stream 7 Channel_new))) = [7, 7]"
  by (simp add: add_audio_stream_def add_video_stream_def add_ancillary_stream_def
      Channel_new_def Stream_new_def)

subsection \<open>Mapping streams to connections\<close>

lemma stream_connections_loop_Inl:
  "stream_connections_loop cs i d ns acc = Inl e \<Longrightarrow>
     \<exists>n\<in>set ns. e = InvalidConfiguration (MappedToUnknownConnection i n)"
  by (induction ns arbitrary: acc) (auto split: option.splits)

lemma stream_connections_loop_Inr:
  "stream_connections_loop cs i d ns acc = Inr r \<Longrightarrow>
     (\<forall>n\<in>set ns. find_if (\<lambda>c. get_name c = n) cs \<noteq> None) \<and>
     r = acc @ filter (\<lambda>k. Both = d \<or> get_direction (cs ! k) = d)
                 (map (\<lambda>n. the (find_if (\<lambda>c. get_name c = n) cs)) ns)"
proof (induction ns arbitrary: acc)
  case Nil
  then show ?case by simp
next
  case (Cons n ns)
  from Cons.prems obtain k where k: "find_if (\<lambda>c. get_name c = n) cs = Some k"
    by (cases "find_if (\<lambda>c. get_name c = n) cs") auto
  let ?acc = "if Both = d \<or> get_direction (cs ! k) = d then acc @ [k] else acc"
  from Cons.prems k have "stream_connections_loop cs i d ns ?acc = Inr r"
    by simp
  from Cons.IH [OF this] k show ?case
    by simp
qed

lemma right_equal_range_mem:
  "n \<in> set (right_equal_range m i) \<longleftrightarrow> (n, i) \<in> set m"
  by (force simp: right_equal_range_def)

text \<open>
  Claim C10. When \<^verbatim>\<open>map_stream\<close> throws, what it throws is an
  \<^verbatim>\<open>InvalidConfigurationException\<close> and the channel (its map and the bound streams
  of every connection included) is as it was before the call. When it returns, the
  stream has been appended to the bound streams of the named connection and the pair
  to the channel map; nothing else has changed.
\<close>

theorem map_stream_atomic:
  "(fst (map_stream stream_identifier connection_name ch) \<noteq> None \<longrightarrow>
      snd (map_stream stream_identifier connection_name ch) = ch \<and>
      (\<exists>msg. fst (map_stream stream_identifier connection_name ch) =
                Some (InvalidConfiguration msg))) \<and>
   (fst (map_stream stream_identifier connection_name ch) = None \<longrightarrow>
      (\<exists>connection stream.
         find_if (\<lambda>c. get_name c = connection_name) (connections ch) = Some connection \<and>
         get_stream ch stream_identifier = Inr stream \<and>
         snd (map_stream stream_identifier connection_name ch) =
           ch\<lparr>connections := (connections ch)
                 [connection := (connections ch ! connection)
                    \<lparr>bound_streams := bound_streams (connections ch ! connection) @ [stream]\<rparr>],
              channel_map := channel_map ch @ [(connection_name, stream_identifier)]\<rparr>))"
proof (cases "find_if (\<lambda>c. get_name c = connection_name) (connections ch)")
  case None
  then show ?thesis by (simp add: map_stream_def)
next
  case (Some k)
  note k = this
  show ?thesis
  proof (cases "get_direction (connections ch ! k) = In")
    case True
    show ?thesis
    proof (cases "get_stream_connections ch stream_identifier In")
      case (Inl e)
      then obtain n where "e = InvalidConfiguration (MappedToUnknownConnection stream_identifier n)"
        unfolding get_stream_connections_def by (blast dest: stream_connections_loop_Inl)
      with k True Inl show ?thesis by (simp add: map_stream_def)
    next
      case (Inr scs)
      show ?thesis
      proof (cases "scs = []")
        case False
        with k True Inr show ?thesis by (simp add: map_stream_def)
      next
        case empty: True
        show ?thesis
        proof (cases "get_stream ch stream_identifier")
          case (Inl e)
          then have "\<exists>msg. e = InvalidConfiguration msg"
            by (auto simp: get_stream_def split: option.splits)
          with k True Inr empty Inl show ?thesis by (auto simp: map_stream_def)
        next
          case stream: (Inr stream)
          from k True Inr empty stream find_if_Some [OF k] show ?thesis
            by (cases "payload_type (streams ch ! stream)")
               (auto simp: map_stream_def Connection_add_stream_def)
        qed
      qed
    qed
  next
    case False
    show ?thesis
    proof (cases "get_stream ch stream_identifier")
      case (Inl e)
      then have "\<exists>msg. e = InvalidConfiguration msg"
        by (auto simp: get_stream_def split: option.splits)
      with k False Inl show ?thesis by (auto simp: map_stream_def)
    next
      case stream: (Inr stream)
      from k False stream find_if_Some [OF k] show ?thesis
        by (cases "payload_type (streams ch ! stream)")
           (auto simp: map_stream_def Connection_add_stream_def)
    qed
  qed
qed

theorem map_stream_atomic_witness:
  "fst (map_stream 100 ''in1'' example_mapped) =
     Some (InvalidConfiguration (AlreadyAssigned 100 ''in0'' ''in1'')) \<and>
   snd (map_stream 100 ''in1'' example_mapped) = example_mapped \<and>
   fst (map_stream 300 ''out0'' example_mapped) =
     Some (InvalidConfiguration (UnrecognizedStream 300)) \<and>
   snd (map_stream 300 ''out0'' example_mapped) = example_mapped \<and>
   fst (map_stream 200 ''out0'' example_mapped) = None \<and>
   channel_map (snd (map_stream 200 ''out0'' example_mapped)) =
     [(''in0'', 100), (''out0'', 100), (''in1'', 200), (''out0'', 200)]"
proof -
  have 1: "fst (map_stream 100 ''in1'' example_mapped) =
     Some (InvalidConfiguration (AlreadyAssigned 100 ''in0'' ''in1''))"
    by (simp add: example_mapped_eq map_stream_def get_stream_connections_def
        right_equal_range_def Connection_new_def)
  have 2: "fst (map_stream 300 ''out0'' example_mapped) =
     Some (InvalidConfiguration (UnrecognizedStream 300))"
    by (simp add: example_mapped_eq map_stream_def get_stream_def Connection_new_def
        Stream_new_def)
  have 3: "fst (map_stream 200 ''out0'' example_mapped) = None"
    by (simp add: example_mapped_eq map_stream_def get_stream_def Connection_new_def
        Stream_new_def Connection_add_stream_def)
  have 4: "channel_map example_mapped = [(''in0'', 100), (''out0'', 100), (''in1'', 200)]"
    by (simp add: example_mapped_eq)
  from map_stream_atomic [of 100 "''in1''" example_mapped] 1
  have a: "snd (map_stream 100 ''in1'' example_mapped) = example_mapped" by simp
  from map_stream_atomic [of 300 "''out0''" example_mapped] 2
  have b: "snd (map_stream 300 ''out0'' example_mapped) = example_mapped" by simp
  from map_stream_atomic [of 200 "''out0''" example_mapped] 3
  have c: "channel_map (snd (map_stream 200 ''out0'' example_mapped)) =
     channel_map example_mapped @ [(''out0'', 200)]" by auto
  from 1 2 3 a b c 4 show ?thesis by simp
qed

text \<open>
  Claim C1. When a stream identifier is already mapped to an input connection,
  \<^verbatim>\<open>map_stream\<close> of that identifier to a connection of direction \<^verbatim>\<open>In\<close>
  throws \<^verbatim>\<open>InvalidConfigurationException\<close> and leaves the channel as it is. Mapping
  a registered stream of a supported payload type to a connection of direction
  \<^verbatim>\<open>Out\<close> succeeds whatever is already mapped to the stream.
\<close>

theorem map_stream_single_input:
  "(find_if (\<lambda>c. get_name c = connection_name) (connections ch) = Some connection \<and>
    get_direction (connections ch ! connection) = In \<and>
    (mapped_name, stream_identifier) \<in> set (channel_map ch) \<and>
    find_if (\<lambda>c. get_name c = mapped_name) (connections ch) = Some mapped \<and>
    get_direction (connections ch ! mapped) = In \<longrightarrow>
      (\<exists>msg. map_stream stream_identifier connection_name ch =
                (Some (InvalidConfiguration msg), ch))) \<and>
   (find_if (\<lambda>c. get_name c = connection_name) (connections ch) = Some connection \<and>
    get_direction (connections ch ! connection) = Out \<and>
    get_stream ch stream_identifier = Inr stream \<and>
    payload_type (streams ch ! stream) \<noteq> OtherPayloadType \<longrightarrow>
      fst (map_stream stream_identifier connection_name ch) = None \<and>
      channel_map (snd (map_stream stream_identifier connection_name ch)) =
        channel_map ch @ [(connection_name, stream_identifier)])"
proof (intro conjI impI)
  assume a: "find_if (\<lambda>c. get_name c = connection_name) (connections ch) = Some connection \<and>
    get_direction (connections ch ! connection) = In \<and>
    (mapped_name, stream_identifier) \<in> set (channel_map ch) \<and>
    find_if (\<lambda>c. get_name c = mapped_name) (connections ch) = Some mapped \<and>
    get_direction (connections ch ! mapped) = In"
  show "\<exists>msg. map_stream stream_identifier connection_name ch =
                (Some (InvalidConfiguration msg), ch)"
  proof (cases "get_stream_connections ch stream_identifier In")
    case (Inl e)
    then obtain n where "e = InvalidConfiguration (MappedToUnknownConnection stream_identifier n)"
      unfolding get_stream_connections_def by (blast dest: stream_connections_loop_Inl)
    with a Inl show ?thesis by (simp add: map_stream_def)
  next
    case (Inr scs)
    from a have "mapped_name \<in> set (right_equal_range (channel_map ch) stream_identifier)"
      by (simp add: right_equal_range_mem)
    with a stream_connections_loop_Inr [OF Inr [unfolded get_stream_connections_def]]
    have "mapped \<in> set scs"
      by force
    then have "scs \<noteq> []" by auto
    with a Inr show ?thesis by (simp add: map_stream_def)
  qed
next
  assume a: "find_if (\<lambda>c. get_name c = connection_name) (connections ch) = Some connection \<and>
    get_direction (connections ch ! connection) = Out \<and>
    get_stream ch stream_identifier = Inr stream \<and>
    payload_type (streams ch ! stream) \<noteq> OtherPayloadType"
  then show "fst (map_stream stream_identifier connection_name ch) = None"
    by (cases "payload_type (streams ch ! stream)")
       (auto simp: map_stream_def Connection_add_stream_def)
  from a show "channel_map (snd (map_stream stream_identifier connection_name ch)) =
        channel_map ch @ [(connection_name, stream_identifier)]"
    by (cases "payload_type (streams ch ! stream)")
       (auto simp: map_stream_def Connection_add_stream_def)
qed

theorem map_stream_single_input_witness:
  "find_if (\<lambda>c. get_name c = ''in1'') (connections example_mapped) = Some 1 \<and>
   get_direction (connections example_mapped ! 1) = In \<and>
   (''in0'', 100) \<in> set (channel_map example_mapped) \<and>
   find_if (\<lambda>c. get_name c = ''in0'') (connections example_mapped) = Some 0 \<and>
   get_direction (connections example_mapped ! 0) = In \<and>
   (\<exists>msg. map_stream 100 ''in1'' example_mapped = (Some (InvalidConfiguration msg), example_mapped)) \<and>
   find_if (\<lambda>c. get_name c = ''out0'') (connections example_mapped) = Some 2 \<and>
   get_direction (connections example_mapped ! 2) = Out \<and>
   get_stream example_mapped 200 = Inr 1 \<and>
   payload_type (streams example_mapped ! 1) \<noteq> OtherPayloadType \<and>
   fst (map_stream 200 ''out0'' example_mapped) = None \<and>
   channel_map (snd (map_stream 200 ''out0'' example_mapped)) =
     channel_map example_mapped @ [(''out0'', 200)]"
proof -
  have h1: "find_if (\<lambda>c. get_name c = ''in1'') (connections example_mapped) = Some 1 \<and>
    get_direction (connections example_mapped ! 1) = In \<and>
    (''in0'', 100) \<in> set (channel_map example_mapped) \<and>
    find_if (\<lambda>c. get_name c = ''in0'') (connections example_mapped) = Some 0 \<and>
    get_direction (connections example_mapped ! 0) = In"
    by (simp add: example_mapped_eq Connection_new_def)
  have h2: "find_if (\<lambda>c. get_name c = ''out0'') (connections example_mapped) = Some 2 \<and>
    get_direction (connections example_mapped ! 2) = Out \<and>
    get_stream example_mapped 200 = Inr 1 \<and>
    payload_type (streams example_mapped ! 1) \<noteq> OtherPayloadType"
    by (simp add: example_mapped_eq Connection_new_def get_stream_def Stream_new_def)
  from h1 h2
    map_stream_single_input [of "''in1''" example_mapped 1 "''in0''" 100 0 1]
    map_stream_single_input [of "''out0''" example_mapped 2 "''in0''" 200 0 1]
  show ?thesis by simp
qed

subsection \<open>What leaves the stream counters alone\<close>

lemma streams_emit [simp]: "streams (emit c ch) = streams ch"
  by (simp add: emit_def)

lemma streams_open_connections [simp]: "streams (open_connections ch) = streams ch"
  by (simp add: open_connections_calls [of ch])

lemma streams_update_buffer [simp]: "streams (update_buffer n f ch) = streams ch"
  by (simp add: update_buffer_def split: option.splits)

lemma get_connection_buffer_None:
  "connection_buffers ch n = None \<Longrightarrow> get_connection_buffer n ch = (Inl AssertionFailure, ch)"
  by (simp add: get_connection_buffer_def)

lemma get_connection_buffer_Some:
  "connection_buffers ch n = Some (b, latched) \<Longrightarrow>
     get_connection_buffer n ch =
       (Inr b,
        ch\<lparr>calls := calls ch @
              (if is_full b \<and> \<not> latched then [LogWarning (BufferFull n (capacity b))] else []),
           connection_buffers := (connection_buffers ch)
              (n \<mapsto> (b, (latched \<or> is_full b) \<and>
                            low_water_mark (capacity b) < PayloadBuffer_size b))\<rparr>)"
  by (auto simp: get_connection_buffer_def emit_def Let_def)

lemma streams_get_connection_buffer [simp]:
  "streams (snd (get_connection_buffer n ch)) = streams ch"
proof (cases "connection_buffers ch n")
  case None
  then show ?thesis by (simp add: get_connection_buffer_None)
next
  case (Some a)
  then show ?thesis by (cases a) (simp add: get_connection_buffer_Some)
qed

lemma streams_async_write [simp]: "streams (snd (async_write connection ec ch)) = streams ch"
proof -
  have *: "streams (snd (case get_connection_buffer n s of
              (Inl e, ch2) \<Rightarrow> (Some e, ch2)
            | (Inr connection_buffer, ch2) \<Rightarrow> f connection_buffer ch2)) = streams s"
    if "\<And>b ch2. streams (snd (f b ch2)) = streams ch2" for n s
      and f :: "PayloadBuffer \<Rightarrow> Channel \<Rightarrow> outcome"
  proof -
    obtain r ch2 where r: "get_connection_buffer n s = (r, ch2)"
      by (cases "get_connection_buffer n s")
    then have "streams ch2 = streams s"
      using streams_get_connection_buffer [of n s] by simp
    with r that show ?thesis by (cases r) simp_all
  qed
  show ?thesis
    unfolding async_write_def Let_def
    by (simp add: * split: option.splits sum.splits)
qed

lemma streams_on_stream:
  "streams (snd (on_stream stream method ch)) =
     (streams ch)[stream := snd (method (streams ch ! stream))]"
  by (simp add: on_stream_def)

subsection \<open>Transmit completions\<close>

text \<open>
  Claim C2, as amended. \<^verbatim>\<open>write_complete\<close> increments the transmitted counter of
  the stream on every completion, and the error counter as well when the completion
  carries an error; no other counter and no other stream changes.
\<close>

theorem write_complete_counters:
  assumes "stream < length (streams ch)"
  shows "streams (snd (write_complete connection stream ec ch)) =
     (streams ch)[stream := (streams ch ! stream)
        \<lparr>payloads_transmitted := payloads_transmitted (streams ch ! stream) + 1,
         payload_errors := payload_errors (streams ch ! stream) + (if ec \<noteq> 0 then 1 else 0)\<rparr>]"
proof -
  define ch1 where "ch1 = snd (on_stream stream transmitted_payload ch)"
  define ch2 where "ch2 = (if ec \<noteq> 0 then snd (on_stream stream payload_error ch1) else ch1)"
  define n where "n = get_name (connections ch2 ! connection)"
  obtain r ch3 where r: "get_connection_buffer n ch2 = (r, ch3)"
    by (cases "get_connection_buffer n ch2")
  then have ch3: "streams ch3 = streams ch2"
    using streams_get_connection_buffer [of n ch2] by simp
  have "streams (snd (write_complete connection stream ec ch)) = streams ch2"
    unfolding write_complete_def ch1_def [symmetric] Let_def split_def ch2_def [symmetric]
      n_def [symmetric]
    using r ch3 by (cases r) (simp_all split: option.splits)
  also from assms have "\<dots> = (streams ch)[stream := (streams ch ! stream)
        \<lparr>payloads_transmitted := payloads_transmitted (streams ch ! stream) + 1,
         payload_errors := payload_errors (streams ch ! stream) + (if ec \<noteq> 0 then 1 else 0)\<rparr>]"
    by (simp add: ch2_def ch1_def streams_on_stream transmitted_payload_def payload_error_def)
  finally show ?thesis .
qed

theorem write_complete_counters_witness:
  "(0::nat) < length (streams example_queued) \<and>
   map payloads_transmitted (streams (snd (write_complete 2 0 0 example_queued))) = [1, 0] \<and>
   map payload_errors (streams (snd (write_complete 2 0 0 example_queued))) = [0, 0] \<and>
   map payloads_transmitted (streams (snd (write_complete 2 0 5 example_queued))) = [1, 0] \<and>
   map payload_errors (streams (snd (write_complete 2 0 5 example_queued))) = [1, 0]"
proof -
  have s: "streams example_queued =
      [Stream_new 100 Video (VideoDetails 1920 1080 4 60 1),
       Stream_new 200 Audio (AudioDetails 0 0 2 ''eng'')]"
    by (simp add: example_queued_def example_open_def example_mapped_eq)
  then have "(0::nat) < length (streams example_queued)" by simp
  from this write_complete_counters [OF this, of 2 0] write_complete_counters [OF this, of 2 5]
  show ?thesis
    by (simp add: s Stream_new_def)
qed

text \<open>
  Claim C2 as stated fails: a completion that carries an error increments the
  transmitted counter too, so two counters move on one completion.
\<close>

theorem write_complete_counts_failed_transmit:
  "payloads_transmitted (streams example_queued ! 0) = 0 \<and>
   payload_errors (streams example_queued ! 0) = 0 \<and>
   payloads_transmitted (streams (snd (write_complete 2 0 5 example_queued)) ! 0) = 1 \<and>
   payload_errors (streams (snd (write_complete 2 0 5 example_queued)) ! 0) = 1"
  by (simp add: example_queued_def example_open_def example_mapped_eq write_complete_def
      on_stream_def transmitted_payload_def payload_error_def Stream_new_def Connection_new_def
      get_connection_buffer_def PayloadBuffer_size_def is_full_def pop_front_def
      update_buffer_def async_write_def is_active_def emit_def is_empty_def Let_def
      PayloadBuffer_new_def)

subsection \<open>The overflow latch of a buffer\<close>

text \<open>
  Claim C3, as amended. \<^verbatim>\<open>get_connection_buffer\<close> logs one warning exactly when
  it finds the buffer full with the latch clear, and none otherwise, in particular
  none while the latch is set. Finding a buffer of capacity at least 1 full with the
  latch clear sets the latch. When the latch is set on entry, it is cleared exactly
  when the size of the buffer is at most four fifths of the capacity, rounded down.
\<close>

theorem get_connection_buffer_latch:
  assumes "connection_buffers ch connection_name = Some (b, latched)"
  shows "fst (get_connection_buffer connection_name ch) = Inr b \<and>
     calls (snd (get_connection_buffer connection_name ch)) =
       calls ch @ (if is_full b \<and> \<not> latched
                   then [LogWarning (BufferFull connection_name (capacity b))] else []) \<and>
     connection_buffers (snd (get_connection_buffer connection_name ch)) =
       (connection_buffers ch)(connection_name \<mapsto>
          (b, (latched \<or> is_full b) \<and> low_water_mark (capacity b) < PayloadBuffer_size b)) \<and>
     (is_full b \<and> \<not> latched \<and> 0 < capacity b \<longrightarrow>
        connection_buffers (snd (get_connection_buffer connection_name ch)) connection_name =
          Some (b, True)) \<and>
     (latched \<longrightarrow>
        calls (snd (get_connection_buffer connection_name ch)) = calls ch \<and>
        connection_buffers (snd (get_connection_buffer connection_name ch)) connection_name =
          Some (b, \<not> PayloadBuffer_size b \<le> (capacity b * 4) div 5))"
proof -
  have "low_water_mark (capacity b) < PayloadBuffer_size b" if "is_full b" "0 < capacity b"
    using that by (simp add: is_full_def low_water_mark_def)
  then show ?thesis
    by (auto simp: get_connection_buffer_Some [OF assms] low_water_mark_def)
qed

theorem get_connection_buffer_latch_witness:
  "connection_buffers example_latched ''out0'' =
     Some (\<lparr>capacity = 5, buffer = replicate 4 example_payload\<rparr>, True) \<and>
   calls (snd (get_connection_buffer ''out0'' example_latched)) = calls example_latched \<and>
   connection_buffers (snd (get_connection_buffer ''out0'' example_latched)) ''out0'' =
     Some (\<lparr>capacity = 5, buffer = replicate 4 example_payload\<rparr>, False) \<and>
   connection_buffers example_full ''out0'' =
     Some (\<lparr>capacity = 5, buffer = replicate 5 example_payload\<rparr>, False) \<and>
   calls (snd (get_connection_buffer ''out0'' example_full)) =
     calls example_full @ [LogWarning (BufferFull ''out0'' 5)] \<and>
   connection_buffers (snd (get_connection_buffer ''out0'' example_full)) ''out0'' =
     Some (\<lparr>capacity = 5, buffer = replicate 5 example_payload\<rparr>, True)"
proof -
  have l: "connection_buffers example_latched ''out0'' =
     Some (\<lparr>capacity = 5, buffer = replicate 4 example_payload\<rparr>, True)"
    by (simp add: example_latched_def)
  have f: "connection_buffers example_full ''out0'' =
     Some (\<lparr>capacity = 5, buffer = replicate 5 example_payload\<rparr>, False)"
    by (simp add: example_full_def)
  from l f get_connection_buffer_latch [OF l] get_connection_buffer_latch [OF f]
  show ?thesis
    by (simp add: is_full_def PayloadBuffer_size_def low_water_mark_def)
qed

text \<open>
  Claim C3 as stated fails: with capacity 5 and 4 payloads held, the level is not below
  80 percent of the capacity, and the latch is cleared all the same.
\<close>

theorem get_connection_buffer_clears_at_mark:
  "connection_buffers example_latched ''out0'' =
     Some (\<lparr>capacity = 5, buffer = replicate 4 example_payload\<rparr>, True) \<and>
   \<not> 5 * PayloadBuffer_size \<lparr>capacity = 5, buffer = replicate 4 example_payload\<rparr>
       < 4 * capacity \<lparr>capacity = 5, buffer = replicate 4 example_payload\<rparr> \<and>
   connection_buffers (snd (get_connection_buffer ''out0'' example_latched)) ''out0'' =
     Some (\<lparr>capacity = 5, buffer = replicate 4 example_payload\<rparr>, False)"
  by (simp add: example_latched_def get_connection_buffer_def PayloadBuffer_size_def
      is_full_def low_water_mark_def)

subsection \<open>Calls of \<^verbatim>\<open>async_receive\<close>\<close>

lemma count_dial [simp]: "count_list (map (dial cs) ns) (AsyncReceive k) = 0"
  by (induction ns) (simp_all add: dial_def)

lemma frame_emit:
  "connections (emit c s) = connections s \<and> active (emit c s) = active s \<and>
   calls (emit c s) = calls s @ [c]"
  by (simp add: emit_def)

lemma frame_open_connections:
  "connections (open_connections s) = connections s \<and>
   active (open_connections s) = active s \<and>
   connection_buffers (open_connections s) = connection_buffers s \<and>
   count_list (calls (open_connections s)) (AsyncReceive k) =
     count_list (calls s) (AsyncReceive k)"
  by (simp add: open_connections_calls [of s])

lemma frame_update_buffer:
  "connections (update_buffer n f s) = connections s \<and>
   active (update_buffer n f s) = active s \<and>
   calls (update_buffer n f s) = calls s"
  by (simp add: update_buffer_def split: option.splits)

lemma frame_on_stream:
  "connections (snd (on_stream st m s)) = connections s \<and>
   active (snd (on_stream st m s)) = active s \<and>
   calls (snd (on_stream st m s)) = calls s \<and>
   connection_buffers (snd (on_stream st m s)) = connection_buffers s"
  by (simp add: on_stream_def)

lemma frame_get_connection_buffer:
  "connections (snd (get_connection_buffer n s)) = connections s \<and>
   active (snd (get_connection_buffer n s)) = active s \<and>
   count_list (calls (snd (get_connection_buffer n s))) (AsyncReceive k) =
     count_list (calls s) (AsyncReceive k)"
proof (cases "connection_buffers s n")
  case None
  then show ?thesis by (simp add: get_connection_buffer_None)
next
  case (Some a)
  then show ?thesis by (cases a) (simp add: get_connection_buffer_Some)
qed

lemma unarmed_refl [simp]: "unarmed k s s"
  by (simp add: unarmed_def)

lemma unarmed_trans: "unarmed k s s' \<Longrightarrow> unarmed k s' s'' \<Longrightarrow> unarmed k s s''"
  by (simp add: unarmed_def)

lemma unarmed_open_connections [simp]: "unarmed k s (open_connections s)"
  by (simp add: unarmed_def frame_open_connections)

lemma unarmed_update_buffer [simp]: "unarmed k s (update_buffer n f s)"
  by (simp add: unarmed_def frame_update_buffer)

lemma unarmed_on_stream [simp]: "unarmed k s (snd (on_stream st m s))"
  by (simp add: unarmed_def frame_on_stream)

lemma unarmed_get_connection_buffer [simp]: "unarmed k s (snd (get_connection_buffer n s))"
  by (simp add: unarmed_def frame_get_connection_buffer)

lemma unarmed_emit: "c \<noteq> AsyncReceive k \<Longrightarrow> unarmed k s (emit c s)"
  by (simp add: unarmed_def emit_def)

lemma unarmed_queue_payload_output: "unarmed k s (snd (queue_payload_output p st out s))"
proof (cases "Open \<noteq> get_status (connections s ! out)")
  case True
  then show ?thesis by (simp add: queue_payload_output_def)
next
  case False
  let ?n = "get_name (connections s ! out)"
  obtain r s1 where r: "get_connection_buffer ?n s = (r, s1)"
    by (cases "get_connection_buffer ?n s")
  then have s1: "unarmed k s s1"
    using unarmed_get_connection_buffer [of k s ?n] by simp
  show ?thesis
  proof (cases r)
    case (Inl e)
    with False r s1 show ?thesis by (simp add: queue_payload_output_def)
  next
    case (Inr b)
    let ?s2 = "if is_full b then snd (on_stream st payload_error s1) else s1"
    let ?s3 = "update_buffer ?n (enqueue p) ?s2"
    from False r Inr have eq: "queue_payload_output p st out s = (None, ?s3)"
      by (simp add: queue_payload_output_def Let_def)
    have "unarmed k s1 ?s2" by simp
    moreover have "unarmed k ?s2 ?s3" by simp
    ultimately have "unarmed k s ?s3"
      using s1 by (blast intro: unarmed_trans)
    with eq show ?thesis by simp
  qed
qed

lemma unarmed_queue_payload: "unarmed k s (snd (queue_payload p st os s))"
proof (induction os arbitrary: s)
  case Nil
  then show ?case by simp
next
  case (Cons out os)
  obtain r s1 where r: "queue_payload_output p st out s = (r, s1)"
    by (cases "queue_payload_output p st out s")
  then have s1: "unarmed k s s1"
    using unarmed_queue_payload_output [of k s p st out] by simp
  with r Cons.IH [of s1] show ?case
    by (cases r) (auto intro: unarmed_trans)
qed

lemma async_read_frame:
  "connections (async_read c ec s) = connections s \<and> active (async_read c ec s) = active s"
  by (simp add: async_read_def frame_emit frame_open_connections)

lemma async_read_count:
  "count_list (calls (async_read c ec s)) (AsyncReceive k) =
     count_list (calls s) (AsyncReceive k) +
       (if k = c \<and> is_active s \<and> (ec = 0 \<or> get_status (connections s ! c) = Open)
        then 1 else 0)"
  by (simp add: async_read_def frame_emit frame_open_connections is_active_def)

lemma unarmed_async_write: "unarmed k s (snd (async_write c ec s))"
proof -
  let ?s1 = "if ec \<noteq> 0 then emit (LogWarning (TransmitError ec)) s else s"
  let ?n = "get_name (connections ?s1 ! c)"
  have s1: "unarmed k s ?s1"
    by (simp add: unarmed_emit)
  obtain r s2 where r: "get_connection_buffer ?n ?s1 = (r, s2)"
    by (cases "get_connection_buffer ?n ?s1")
  then have "unarmed k ?s1 s2"
    using unarmed_get_connection_buffer [of k ?s1 ?n] by simp
  with s1 have s2: "unarmed k s s2"
    by (rule unarmed_trans)
  have post: "unarmed k s (emit (PostAsyncWrite c ec) s2)"
    by (rule unarmed_trans [OF s2]) (simp add: unarmed_emit)
  have tx: "unarmed k s (emit (AsyncTransmit c p st) s2)" for p st
    by (rule unarmed_trans [OF s2]) (simp add: unarmed_emit)
  have warn: "unarmed k s (open_connections (emit (LogWarning (NotReady n)) s))" for n
    by (rule unarmed_trans [OF unarmed_emit unarmed_open_connections]) simp
  show ?thesis
    unfolding async_write_def Let_def
    using r s2 post tx warn
    by (cases r) (auto split: option.splits sum.splits)
qed

lemma unarmed_write_complete: "unarmed k s (snd (write_complete c st ec s))"
proof -
  let ?s1 = "snd (on_stream st transmitted_payload s)"
  let ?s2 = "if ec \<noteq> 0 then snd (on_stream st payload_error ?s1) else ?s1"
  let ?n = "get_name (connections ?s2 ! c)"
  have "unarmed k ?s1 ?s2" by simp
  then have s2: "unarmed k s ?s2"
    by (rule unarmed_trans [OF unarmed_on_stream])
  obtain r s3 where r: "get_connection_buffer ?n ?s2 = (r, s3)"
    by (cases "get_connection_buffer ?n ?s2")
  then have "unarmed k ?s2 s3"
    using unarmed_get_connection_buffer [of k ?s2 ?n] by simp
  with s2 have s3: "unarmed k s s3"
    by (rule unarmed_trans)
  have w: "unarmed k s (snd (async_write c ec (update_buffer ?n f s3)))" for f
    by (rule unarmed_trans [OF s3])
       (rule unarmed_trans [OF unarmed_update_buffer unarmed_async_write])
  show ?thesis
    unfolding write_complete_def Let_def split_def
    using r s3 w by (cases r) (auto split: option.splits)
qed

lemma unarmed_clear_outputs: "unarmed k s (snd (clear_outputs os s))"
proof (induction os arbitrary: s)
  case Nil
  then show ?case by simp
next
  case (Cons out os)
  let ?n = "get_name (connections s ! out)"
  obtain r s1 where r: "get_connection_buffer ?n s = (r, s1)"
    by (cases "get_connection_buffer ?n s")
  then have s1: "unarmed k s s1"
    using unarmed_get_connection_buffer [of k s ?n] by simp
  show ?case
  proof (cases r)
    case (Inl e)
    with r s1 show ?thesis by (simp add: Let_def)
  next
    case (Inr b)
    let ?s2 = "update_buffer ?n clear s1"
    from r Inr have "clear_outputs (out # os) s = clear_outputs os ?s2"
      by (simp add: Let_def)
    moreover have "unarmed k s ?s2"
      by (rule unarmed_trans [OF s1]) simp
    ultimately show ?thesis
      using Cons.IH [of ?s2] by (auto intro: unarmed_trans)
  qed
qed

lemma unarmed_clear_stream_outputs: "unarmed k s (snd (clear_stream_outputs ss s))"
proof (induction ss arbitrary: s)
  case Nil
  then show ?case by simp
next
  case (Cons st ss)
  show ?case
  proof (cases "get_stream_connections s (stream_id (streams s ! st)) Out")
    case (Inl e)
    then show ?thesis by simp
  next
    case (Inr outs)
    obtain r s1 where r: "clear_outputs outs s = (r, s1)"
      by (cases "clear_outputs outs s")
    then have s1: "unarmed k s s1"
      using unarmed_clear_outputs [of k s outs] by simp
    from Inr r s1 Cons.IH [of s1] show ?thesis
      by (cases r) (auto intro: unarmed_trans)
  qed
qed

lemma read_complete_resume:
  assumes "fst (read_complete c ec p s) = None"
  shows "\<exists>s'. unarmed k s s' \<and>
           snd (read_complete c ec p s) =
             (if get_type (connections s ! c) \<noteq> Cdi then async_read c ec s' else s')"
proof -
  from assms obtain st where st: "get_stream s (payload_stream_identifier p) = Inr st"
    by (cases "get_stream s (payload_stream_identifier p)") (auto simp: read_complete_def)
  let ?s1 = "snd (on_stream st received_payload s)"
  let ?s2 = "if ec \<noteq> 0 then snd (on_stream st payload_error ?s1) else ?s1"
  have "unarmed k ?s1 ?s2" by simp
  then have s2: "unarmed k s ?s2"
    by (rule unarmed_trans [OF unarmed_on_stream])
  let ?r = "if \<not> ec \<noteq> 0
            then (case get_stream_connections ?s2 (payload_stream_identifier p) Out of
                    Inl e \<Rightarrow> (Some e, ?s2)
                  | Inr outputs \<Rightarrow> queue_payload p st outputs ?s2)
            else (None, ?s2)"
  have s3: "unarmed k ?s2 (snd ?r)"
    by (auto split: sum.splits simp: unarmed_queue_payload)
  have eq: "read_complete c ec p s =
      (case ?r of (Some e, s3) \<Rightarrow> (Some e, s3)
       | (None, s3) \<Rightarrow> (None, if get_type (connections s3 ! c) \<noteq> Cdi
                                then async_read c ec s3 else s3))"
    using st by (simp add: read_complete_def split_def Let_def)
  obtain e s3 where r: "?r = (e, s3)"
    by (cases ?r)
  with assms eq have e: "e = None"
    by (cases e) simp_all
  from r s3 s2 have u: "unarmed k s s3"
    by (auto intro: unarmed_trans)
  then have "connections s3 = connections s"
    by (simp add: unarmed_def)
  with eq r e u show ?thesis
    by auto
qed

lemma read_complete_thrown:
  assumes "fst (read_complete c ec p s) \<noteq> None"
  shows "unarmed k s (snd (read_complete c ec p s))"
proof (cases "get_stream s (payload_stream_identifier p)")
  case (Inl e)
  then show ?thesis by (simp add: read_complete_def)
next
  case (Inr st)
  let ?s1 = "snd (on_stream st received_payload s)"
  let ?s2 = "if ec \<noteq> 0 then snd (on_stream st payload_error ?s1) else ?s1"
  have "unarmed k ?s1 ?s2" by simp
  then have s2: "unarmed k s ?s2"
    by (rule unarmed_trans [OF unarmed_on_stream])
  let ?r = "if \<not> ec \<noteq> 0
            then (case get_stream_connections ?s2 (payload_stream_identifier p) Out of
                    Inl e \<Rightarrow> (Some e, ?s2)
                  | Inr outputs \<Rightarrow> queue_payload p st outputs ?s2)
            else (None, ?s2)"
  have s3: "unarmed k ?s2 (snd ?r)"
    by (auto split: sum.splits simp: unarmed_queue_payload)
  have eq: "read_complete c ec p s =
      (case ?r of (Some e, s3) \<Rightarrow> (Some e, s3)
       | (None, s3) \<Rightarrow> (None, if get_type (connections s3 ! c) \<noteq> Cdi
                                then async_read c ec s3 else s3))"
    using Inr by (simp add: read_complete_def split_def Let_def)
  obtain e s3 where r: "?r = (e, s3)"
    by (cases ?r)
  with assms eq have "snd (read_complete c ec p s) = s3"
    by (cases e) simp_all
  with r s3 s2 show ?thesis
    by (auto intro: unarmed_trans)
qed


lemma connection_handler_count:
  "count_list (calls (snd (connection_handler c ec s))) (AsyncReceive k) =
     count_list (calls s) (AsyncReceive k) +
       (if ec = 0 \<and> is_active s \<and> In = get_direction (connections s ! c) \<and> k = c
        then 1 else 0)"
proof (cases "ec = 0 \<and> is_active s \<and> In = get_direction (connections s ! c)")
  case False
  have "unarmed k s (emit (Handler ec) s)"
    by (simp add: unarmed_emit)
  with False unarmed_async_write [of k s c 0] show ?thesis
    by (auto simp: connection_handler_def unarmed_def)
next
  case True
  let ?s1 = "if get_type (connections s ! c) \<noteq> Cdi
             then async_read c 0 s else emit (AsyncReceive c) s"
  have c1: "connections ?s1 = connections s"
    by (simp add: async_read_frame frame_emit)
  have n1: "count_list (calls ?s1) (AsyncReceive k) =
      count_list (calls s) (AsyncReceive k) + (if k = c then 1 else 0)"
    using True by (simp add: async_read_count frame_emit)
  let ?r = "case get_connection_streams ?s1 (get_name (connections ?s1 ! c)) of
              Inl e \<Rightarrow> (Some e, ?s1)
            | Inr ss \<Rightarrow> clear_stream_outputs ss ?s1"
  have "unarmed k ?s1 (snd ?r)"
    by (simp add: unarmed_clear_stream_outputs split: sum.splits)
  then have "count_list (calls (snd ?r)) (AsyncReceive k) =
      count_list (calls ?s1) (AsyncReceive k)"
    by (simp add: unarmed_def)
  moreover from True have "connection_handler c ec s = ?r"
    by (simp add: connection_handler_def Let_def)
  ultimately show ?thesis
    using n1 True by simp
qed

lemma read_complete_count:
  "count_list (calls (snd (read_complete c ec p s))) (AsyncReceive k) =
     count_list (calls s) (AsyncReceive k) +
       (if fst (read_complete c ec p s) = None \<and> get_type (connections s ! c) \<noteq> Cdi \<and>
           k = c \<and> is_active s \<and> (ec = 0 \<or> get_status (connections s ! c) = Open)
        then 1 else 0)"
proof (cases "fst (read_complete c ec p s) = None")
  case False
  with read_complete_thrown [of c ec p s k] show ?thesis
    by (simp add: unarmed_def)
next
  case True
  from read_complete_resume [OF True, of k] obtain s' where
    u: "unarmed k s s'" and
    eq: "snd (read_complete c ec p s) =
           (if get_type (connections s ! c) \<noteq> Cdi then async_read c ec s' else s')"
    by blast
  from u have "active s' = active s" "connections s' = connections s"
    "count_list (calls s') (AsyncReceive k) = count_list (calls s) (AsyncReceive k)"
    by (simp_all add: unarmed_def)
  with True eq show ?thesis
    by (auto simp: async_read_count is_active_def)
qed

text \<open>
  Claim C5, as amended. For a connection of type \<^verbatim>\<open>Cdi\<close>, no callback of the
  router calls \<^verbatim>\<open>async_receive\<close> on it, whatever its arguments and whether it
  returns or throws, but one: the connection handler of that connection, completing
  without error on an active channel for an input, calls it exactly once. In particular
  \<^verbatim>\<open>read_complete\<close> never does, and \<^verbatim>\<open>open_connections\<close> itself never does. For
  a connection of any other type, a \<^verbatim>\<open>read_complete\<close> that returns ends by
  calling \<^verbatim>\<open>async_read\<close> for the connection with the completion's error code,
  which calls \<^verbatim>\<open>async_receive\<close> once if the channel is active and the completion
  carries no error or the connection is still open; a \<^verbatim>\<open>read_complete\<close> that
  throws calls \<^verbatim>\<open>async_receive\<close> no further time. It throws, leaving the channel
  as it is, when the stream of the payload is not registered; it returns only for a
  registered stream, and for a completion that carries an error it returns for every
  registered stream.
\<close>

theorem async_receive_armed_once:
  "(get_type (connections ch ! k) = Cdi \<longrightarrow>
      count_list (calls (snd (deliver e ch))) (AsyncReceive k) =
        count_list (calls ch) (AsyncReceive k) +
          (if e = ConnectionCompleted k 0 \<and> is_active ch \<and>
              In = get_direction (connections ch ! k)
           then 1 else 0)) \<and>
   count_list (calls (open_connections ch)) (AsyncReceive k) =
     count_list (calls ch) (AsyncReceive k) \<and>
   (get_type (connections ch ! connection) \<noteq> Cdi \<longrightarrow>
      count_list (calls (snd (read_complete connection ec payload ch))) (AsyncReceive connection) =
        count_list (calls ch) (AsyncReceive connection) +
          (if fst (read_complete connection ec payload ch) = None \<and> is_active ch \<and>
              (ec = 0 \<or> get_status (connections ch ! connection) = Open)
           then 1 else 0) \<and>
      (fst (read_complete connection ec payload ch) = None \<longrightarrow>
         (\<exists>s. snd (read_complete connection ec payload ch) = async_read connection ec s \<and>
              connections s = connections ch \<and> active s = active ch \<and>
              count_list (calls s) (AsyncReceive connection) =
                count_list (calls ch) (AsyncReceive connection)))) \<and>
   (get_stream ch (payload_stream_identifier payload) =
      Inl (InvalidConfiguration (UnrecognizedStream (payload_stream_identifier payload))) \<longrightarrow>
      read_complete connection ec payload ch =
        (Some (InvalidConfiguration (UnrecognizedStream (payload_stream_identifier payload))),
         ch)) \<and>
   (fst (read_complete connection ec payload ch) = None \<longrightarrow>
      (\<exists>stream. get_stream ch (payload_stream_identifier payload) = Inr stream)) \<and>
   (ec \<noteq> 0 \<and> (\<exists>stream. get_stream ch (payload_stream_identifier payload) = Inr stream) \<longrightarrow>
      fst (read_complete connection ec payload ch) = None)"
proof (intro conjI impI)
  assume cdi: "get_type (connections ch ! k) = Cdi"
  show "count_list (calls (snd (deliver e ch))) (AsyncReceive k) =
        count_list (calls ch) (AsyncReceive k) +
          (if e = ConnectionCompleted k 0 \<and> is_active ch \<and>
              In = get_direction (connections ch ! k)
           then 1 else 0)"
  proof (cases e)
    case (ConnectionCompleted c ec')
    then show ?thesis
      by (auto simp: connection_handler_count)
  next
    case (ReadCompleted c ec' p)
    with cdi show ?thesis
      by (auto simp: read_complete_count)
  next
    case (WriteCompleted c st ec')
    with unarmed_write_complete [of k ch c st ec'] show ?thesis
      by (simp add: unarmed_def)
  next
    case (WritePosted c ec')
    with unarmed_async_write [of k ch c ec'] show ?thesis
      by (simp add: unarmed_def)
  qed
next
  show "count_list (calls (open_connections ch)) (AsyncReceive k) =
     count_list (calls ch) (AsyncReceive k)"
    by (simp add: frame_open_connections)
next
  assume "get_type (connections ch ! connection) \<noteq> Cdi"
  then show "count_list (calls (snd (read_complete connection ec payload ch)))
        (AsyncReceive connection) =
        count_list (calls ch) (AsyncReceive connection) +
          (if fst (read_complete connection ec payload ch) = None \<and> is_active ch \<and>
              (ec = 0 \<or> get_status (connections ch ! connection) = Open)
           then 1 else 0)"
    by (simp add: read_complete_count)
next
  assume t: "get_type (connections ch ! connection) \<noteq> Cdi"
    and ok: "fst (read_complete connection ec payload ch) = None"
  from read_complete_resume [OF ok, of connection] t
  show "\<exists>s. snd (read_complete connection ec payload ch) = async_read connection ec s \<and>
           connections s = connections ch \<and> active s = active ch \<and>
           count_list (calls s) (AsyncReceive connection) =
             count_list (calls ch) (AsyncReceive connection)"
    by (auto simp: unarmed_def)
next
  assume "get_stream ch (payload_stream_identifier payload) =
      Inl (InvalidConfiguration (UnrecognizedStream (payload_stream_identifier payload)))"
  then show "read_complete connection ec payload ch =
        (Some (InvalidConfiguration (UnrecognizedStream (payload_stream_identifier payload))),
         ch)"
    by (simp add: read_complete_def)
next
  assume "fst (read_complete connection ec payload ch) = None"
  then show "\<exists>stream. get_stream ch (payload_stream_identifier payload) = Inr stream"
    by (cases "get_stream ch (payload_stream_identifier payload)")
       (simp_all add: read_complete_def)
next
  assume "ec \<noteq> 0 \<and> (\<exists>stream. get_stream ch (payload_stream_identifier payload) = Inr stream)"
  then obtain stream where "ec \<noteq> 0"
    and "get_stream ch (payload_stream_identifier payload) = Inr stream"
    by blast
  then show "fst (read_complete connection ec payload ch) = None"
    by (simp add: read_complete_def split_def Let_def)
qed

theorem async_receive_armed_once_witness:
  "get_type (connections example_open ! 1) = Cdi \<and>
   is_active example_open \<and>
   In = get_direction (connections example_open ! 1) \<and>
   count_list (calls example_open) (AsyncReceive 1) = 0 \<and>
   count_list (calls (snd (deliver (ConnectionCompleted 1 0) example_open))) (AsyncReceive 1) = 1 \<and>
   count_list (calls (snd (deliver
      (ReadCompleted 1 0 \<lparr>payload_stream_identifier = 200, sequence = 0, payload_size = 1024\<rparr>)
      example_open))) (AsyncReceive 1) = 0 \<and>
   get_type (connections example_open ! 0) \<noteq> Cdi \<and>
   fst (read_complete 0 0 example_payload example_open) = None \<and>
   count_list (calls (snd (read_complete 0 0 example_payload example_open))) (AsyncReceive 0) = 1 \<and>
   get_stream example_open (payload_stream_identifier example_unregistered) =
     Inl (InvalidConfiguration (UnrecognizedStream 999)) \<and>
   count_list (calls (snd (read_complete 0 0 example_unregistered example_open)))
     (AsyncReceive 0) = 0"
proof -
  have h: "get_type (connections example_open ! 1) = Cdi \<and> is_active example_open \<and>
      In = get_direction (connections example_open ! 1) \<and>
      count_list (calls example_open) (AsyncReceive 1) = 0 \<and>
      count_list (calls example_open) (AsyncReceive 0) = 0 \<and>
      get_type (connections example_open ! 0) \<noteq> Cdi \<and>
      get_status (connections example_open ! 0) = Open"
    by (simp add: example_open_eq Connection_new_def is_active_def)
  have ok: "fst (read_complete 0 0 example_payload example_open) = None"
    by (simp add: example_open_eq example_payload_def run_defs)
  have un: "get_stream example_open (payload_stream_identifier example_unregistered) =
      Inl (InvalidConfiguration (UnrecognizedStream 999))"
    "payload_stream_identifier example_unregistered = 999"
    by (simp_all add: example_open_eq example_unregistered_def get_stream_def Stream_new_def)
  let ?p = "\<lparr>payload_stream_identifier = 200, sequence = 0, payload_size = 1024\<rparr>"
  note t1 = async_receive_armed_once [of example_open 1 "ConnectionCompleted 1 0" 0 0
      example_payload, THEN conjunct1]
  note t2 = async_receive_armed_once [of example_open 1 "ReadCompleted 1 0 ?p" 0 0
      example_payload, THEN conjunct1]
  note t3 = async_receive_armed_once [of example_open 1 "ConnectionCompleted 1 0" 0 0
      example_payload, THEN conjunct2, THEN conjunct2, THEN conjunct1]
  note t4 = async_receive_armed_once [of example_open 1 "ConnectionCompleted 1 0" 0 0
      example_unregistered, THEN conjunct2, THEN conjunct2, THEN conjunct2, THEN conjunct1]
  from t1 h have a: "count_list (calls (snd (deliver (ConnectionCompleted 1 0) example_open)))
      (AsyncReceive 1) = 1"
    by simp
  from t2 h have b: "count_list (calls (snd (deliver (ReadCompleted 1 0 ?p) example_open)))
      (AsyncReceive 1) = 0"
    by simp
  from t3 h ok have c: "count_list (calls (snd (read_complete 0 0 example_payload example_open)))
      (AsyncReceive 0) = 1"
    by simp
  from t4 un have "read_complete 0 0 example_unregistered example_open =
      (Some (InvalidConfiguration (UnrecognizedStream 999)), example_open)"
    by simp
  with h have d: "count_list (calls (snd (read_complete 0 0 example_unregistered example_open)))
      (AsyncReceive 0) = 0"
    by simp
  from h ok a b c d un(1) show ?thesis
    by blast
qed

text \<open>
  Claim C5 as stated fails: on the open, active example channel the completion of a
  receive on the \<^verbatim>\<open>Tcp\<close> input that delivers a payload of the unregistered stream
  999 throws at \<^verbatim>\<open>get_stream\<close>, and no call is made, where \<^verbatim>\<open>async_read\<close>
  would have called \<^verbatim>\<open>async_receive\<close>.
\<close>

theorem read_complete_unregistered_not_rearmed:
  "get_type (connections example_open ! 0) = Tcp \<and>
   get_direction (connections example_open ! 0) = In \<and>
   get_status (connections example_open ! 0) = Open \<and>
   is_active example_open \<and>
   calls example_open = [] \<and>
   read_complete 0 0 example_unregistered example_open =
     (Some (InvalidConfiguration (UnrecognizedStream 999)), example_open) \<and>
   calls (snd (read_complete 0 0 example_unregistered example_open)) = [] \<and>
   calls (async_read 0 0 example_open) = [AsyncReceive 0]"
  by (simp add: example_open_eq example_unregistered_def read_complete_def get_stream_def
      async_read_def is_active_def emit_def Connection_new_def Stream_new_def)

subsection \<open>Fanning a received payload out\<close>

lemma queue_payload_output_closed:
  "get_status (connections s ! out) \<noteq> Open \<Longrightarrow>
     queue_payload_output p st out s = (None, open_connections s)"
  by (auto simp: queue_payload_output_def)

lemma queue_payload_output_open:
  assumes "get_status (connections s ! out) = Open"
    and "connection_buffers s (get_name (connections s ! out)) = Some (b, latched)"
  shows "queue_payload_output p st out s =
     (None,
      s\<lparr>calls := calls s @
            (if is_full b \<and> \<not> latched
             then [LogWarning (BufferFull (get_name (connections s ! out)) (capacity b))]
             else []),
         streams :=
           (if is_full b
            then (streams s)[st := (streams s ! st)
                   \<lparr>payload_errors := payload_errors (streams s ! st) + 1\<rparr>]
            else streams s),
         connection_buffers := (connection_buffers s)
           (get_name (connections s ! out) \<mapsto>
              (enqueue p b,
               (latched \<or> is_full b) \<and> low_water_mark (capacity b) < PayloadBuffer_size b))\<rparr>)"
  using assms(1)
  by (simp add: queue_payload_output_def get_connection_buffer_Some [OF assms(2)] Let_def
      on_stream_def payload_error_def update_buffer_def)

lemma queue_payload_output_unbuffered:
  "get_status (connections s ! out) = Open \<Longrightarrow>
   connection_buffers s (get_name (connections s ! out)) = None \<Longrightarrow>
     queue_payload_output p st out s = (Some AssertionFailure, s)"
  by (simp add: queue_payload_output_def get_connection_buffer_None)

lemma queued_enqueue:
  "PayloadBuffer_size (enqueue p b) = PayloadBuffer_size b + (if is_full b then 0 else 1)"
  by (simp add: enqueue_def PayloadBuffer_size_def)

text \<open>One pass of the loop body over an open output with a buffer.\<close>

lemma queue_payload_output_open_effect:
  assumes "get_status (connections s ! out) = Open"
    and "connection_buffers s (get_name (connections s ! out)) = Some (b, latched)"
    and "st < length (streams s)"
    and "finite N" and "get_name (connections s ! out) \<in> N"
  shows "\<exists>s1 latched1. queue_payload_output p st out s = (None, s1) \<and>
     connections s1 = connections s \<and>
     length (streams s1) = length (streams s) \<and>
     connection_buffers s1 =
       (connection_buffers s)(get_name (connections s ! out) \<mapsto> (enqueue p b, latched1)) \<and>
     payload_errors (streams s1 ! st) + sum (queued s1) N =
       payload_errors (streams s ! st) + sum (queued s) N + 1"
proof -
  let ?n = "get_name (connections s ! out)"
  let ?l = "(latched \<or> is_full b) \<and> low_water_mark (capacity b) < PayloadBuffer_size b"
  let ?s1 = "s\<lparr>calls := calls s @
            (if is_full b \<and> \<not> latched
             then [LogWarning (BufferFull ?n (capacity b))] else []),
         streams :=
           (if is_full b
            then (streams s)[st := (streams s ! st)
                   \<lparr>payload_errors := payload_errors (streams s ! st) + 1\<rparr>]
            else streams s),
         connection_buffers := (connection_buffers s)(?n \<mapsto> (enqueue p b, ?l))\<rparr>"
  define s1 where "s1 = ?s1"
  have eq: "queue_payload_output p st out s = (None, s1)"
    unfolding s1_def by (rule queue_payload_output_open [OF assms(1,2)])
  have q: "queued s1 n = (if n = ?n then PayloadBuffer_size (enqueue p b) else queued s n)" for n
    by (simp add: queued_def s1_def)
  have qn: "queued s ?n = PayloadBuffer_size b"
    using assms(2) by (simp add: queued_def)
  have "sum (queued s1) (N - {?n}) = sum (queued s) (N - {?n})"
    by (rule sum.cong) (simp_all add: q)
  with sum.remove [OF assms(4,5), of "queued s1"]
  have "sum (queued s1) N = PayloadBuffer_size (enqueue p b) + sum (queued s) (N - {?n})"
    by (simp add: q)
  moreover have "sum (queued s) N = PayloadBuffer_size b + sum (queued s) (N - {?n})"
    using sum.remove [OF assms(4,5), of "queued s"] qn by simp
  ultimately have "sum (queued s1) N = sum (queued s) N + (if is_full b then 0 else 1)"
    by (simp add: queued_enqueue)
  moreover have "payload_errors (streams s1 ! st) =
      payload_errors (streams s ! st) + (if is_full b then 1 else 0)"
    using assms(3) by (simp add: s1_def)
  ultimately have "payload_errors (streams s1 ! st) + sum (queued s1) N =
       payload_errors (streams s ! st) + sum (queued s) N + 1"
    by simp
  moreover have "connections s1 = connections s" "length (streams s1) = length (streams s)"
    "connection_buffers s1 = (connection_buffers s)(?n \<mapsto> (enqueue p b, ?l))"
    by (simp_all add: s1_def)
  ultimately show ?thesis
    using eq by blast
qed

lemma queue_payload_effect:
  assumes "\<forall>out\<in>set os. get_status (connections s ! out) = Open \<longrightarrow>
             get_name (connections s ! out) \<in> dom (connection_buffers s) \<inter> N"
    and "st < length (streams s)" and "finite N"
  shows "\<exists>s'. queue_payload p st os s = (None, s') \<and>
     connections s' = connections s \<and>
     length (streams s') = length (streams s) \<and>
     (\<forall>n. map_option fst (connection_buffers s' n) =
           map_option
             (\<lambda>(b, latched).
                (enqueue p ^^
                   count_list
                     (map (\<lambda>out. get_name (connections s ! out))
                        (filter (\<lambda>out. get_status (connections s ! out) = Open) os)) n) b)
             (connection_buffers s n)) \<and>
     (\<forall>n. n \<notin> (\<lambda>out. get_name (connections s ! out)) `
                 {out \<in> set os. get_status (connections s ! out) = Open} \<longrightarrow>
           connection_buffers s' n = connection_buffers s n) \<and>
     payload_errors (streams s' ! st) + sum (queued s') N =
       payload_errors (streams s ! st) + sum (queued s) N +
         length (filter (\<lambda>out. get_status (connections s ! out) = Open) os)"
  using assms
proof (induction os arbitrary: s)
  case Nil
  then show ?case by (simp add: split_def option.map_ident)
next
  case (Cons out os)
  let ?nm = "\<lambda>s out. get_name (connections s ! out)"
  let ?open = "\<lambda>s out. get_status (connections s ! out) = Open"
  show ?case
  proof (cases "?open s out")
    case False
    let ?s1 = "open_connections s"
    from False have step: "queue_payload_output p st out s = (None, ?s1)"
      by (rule queue_payload_output_closed)
    have same: "connections ?s1 = connections s" "streams ?s1 = streams s"
      "connection_buffers ?s1 = connection_buffers s"
      by (simp_all add: open_connections_calls [of s])
    then have q: "queued ?s1 = queued s"
      by (simp add: queued_def fun_eq_iff)
    from Cons.prems same have
      "\<forall>out\<in>set os. ?open ?s1 out \<longrightarrow> ?nm ?s1 out \<in> dom (connection_buffers ?s1) \<inter> N"
      "st < length (streams ?s1)"
      by simp_all
    from Cons.IH [OF this \<open>finite N\<close>] obtain s' where
      s': "queue_payload p st os ?s1 = (None, s')"
        "connections s' = connections ?s1"
        "length (streams s') = length (streams ?s1)"
        "\<forall>n. map_option fst (connection_buffers s' n) =
           map_option
             (\<lambda>(b, latched).
                (enqueue p ^^ count_list (map (?nm ?s1) (filter (?open ?s1) os)) n) b)
             (connection_buffers ?s1 n)"
        "\<forall>n. n \<notin> ?nm ?s1 ` {out \<in> set os. ?open ?s1 out} \<longrightarrow>
           connection_buffers s' n = connection_buffers ?s1 n"
        "payload_errors (streams s' ! st) + sum (queued s') N =
           payload_errors (streams ?s1 ! st) + sum (queued ?s1) N +
             length (filter (?open ?s1) os)"
      by blast
    from s' step False show ?thesis
      unfolding same q
      by (intro exI [of _ s']) auto
  next
    case True
    with Cons.prems(1) obtain b latched where
      buf: "connection_buffers s (?nm s out) = Some (b, latched)" and inN: "?nm s out \<in> N"
      by fastforce
    from queue_payload_output_open_effect [OF True buf Cons.prems(2) \<open>finite N\<close> inN, of p]
    obtain s1 latched1 where
      step: "queue_payload_output p st out s = (None, s1)" and
      conns: "connections s1 = connections s" and
      len: "length (streams s1) = length (streams s)" and
      bufs: "connection_buffers s1 =
         (connection_buffers s)(?nm s out \<mapsto> (enqueue p b, latched1))" and
      acc: "payload_errors (streams s1 ! st) + sum (queued s1) N =
         payload_errors (streams s ! st) + sum (queued s) N + 1"
      by blast
    from Cons.prems conns len bufs have
      "\<forall>out\<in>set os. ?open s1 out \<longrightarrow> ?nm s1 out \<in> dom (connection_buffers s1) \<inter> N"
      "st < length (streams s1)"
      by auto
    from Cons.IH [OF this \<open>finite N\<close>] obtain s' where
      s': "queue_payload p st os s1 = (None, s')"
        "connections s' = connections s1"
        "length (streams s') = length (streams s1)"
        "\<forall>n. map_option fst (connection_buffers s' n) =
           map_option
             (\<lambda>(b, latched).
                (enqueue p ^^ count_list (map (?nm s1) (filter (?open s1) os)) n) b)
             (connection_buffers s1 n)"
        "\<forall>n. n \<notin> ?nm s1 ` {out \<in> set os. ?open s1 out} \<longrightarrow>
           connection_buffers s' n = connection_buffers s1 n"
        "payload_errors (streams s' ! st) + sum (queued s') N =
           payload_errors (streams s1 ! st) + sum (queued s1) N +
             length (filter (?open s1) os)"
      by blast
    have c: "\<forall>n. map_option fst (connection_buffers s' n) =
           map_option
             (\<lambda>(b, latched).
                (enqueue p ^^ count_list (map (?nm s) (filter (?open s) (out # os))) n) b)
             (connection_buffers s n)"
    proof
      fix n
      show "map_option fst (connection_buffers s' n) =
           map_option
             (\<lambda>(b, latched).
                (enqueue p ^^ count_list (map (?nm s) (filter (?open s) (out # os))) n) b)
             (connection_buffers s n)"
        using s'(4) [rule_format, of n] True buf
        by (auto simp: conns bufs funpow_swap1)
    qed
    have d: "\<forall>n. n \<notin> ?nm s ` {o' \<in> set (out # os). ?open s o'} \<longrightarrow>
           connection_buffers s' n = connection_buffers s n"
    proof (intro allI impI)
      fix n
      assume n: "n \<notin> ?nm s ` {o' \<in> set (out # os). ?open s o'}"
      with True have "n \<noteq> ?nm s out" by auto
      moreover from n have "n \<notin> ?nm s1 ` {o' \<in> set os. ?open s1 o'}"
        by (auto simp: conns)
      ultimately show "connection_buffers s' n = connection_buffers s n"
        using s'(5) by (simp add: bufs)
    qed
    from s'(1,2,3,6) step True conns len acc c d show ?thesis
      by (intro exI [of _ s']) simp
  qed
qed


lemma get_stream_Inr: "get_stream ch i = Inr st \<Longrightarrow> st < length (streams ch)"
  by (auto simp: get_stream_def split: option.splits dest: find_if_Some)

lemma get_stream_connections_named:
  assumes "get_stream_connections ch i d = Inr outs" and "out \<in> set outs"
  shows "find_if (\<lambda>c. get_name c = get_name (connections ch ! out)) (connections ch) = Some out"
proof -
  let ?find = "\<lambda>n. find_if (\<lambda>c. get_name c = n) (connections ch)"
  let ?ns = "right_equal_range (channel_map ch) i"
  from stream_connections_loop_Inr [OF assms(1) [unfolded get_stream_connections_def]]
  have found: "\<forall>n\<in>set ?ns. ?find n \<noteq> None"
    and outs: "outs = [] @ filter (\<lambda>k. Both = d \<or> get_direction (connections ch ! k) = d)
                 (map (\<lambda>n. the (?find n)) ?ns)"
    by blast+
  from assms(2) have "out \<in> set (map (\<lambda>n. the (?find n)) ?ns)"
    unfolding outs by simp
  then obtain n where "n \<in> set ?ns" "out = the (?find n)"
    by auto
  with found have n: "?find n \<noteq> None" "out = the (?find n)"
    by auto
  then have f: "?find n = Some out" by auto
  from find_if_Some [OF f] have "get_name (connections ch ! out) = n" by simp
  with f show ?thesis by simp
qed

lemma count_list_names:
  assumes "\<forall>y\<in>set os. nm y = nm out \<longrightarrow> y = out" and "P out"
  shows "count_list (map nm (filter P os)) (nm out) = count_list os out"
  using assms(1) by (induction os) (use assms(2) in auto)

lemma async_read_buffers:
  "connection_buffers (async_read c ec s) = connection_buffers s \<and>
   streams (async_read c ec s) = streams s"
  by (simp add: async_read_def emit_def frame_open_connections)

lemma filter_dial [simp]: "filter (\<lambda>c. \<not> is_log c) (map (dial cs) ns) = map (dial cs) ns"
  by (induction ns) (simp_all add: dial_def)

lemma drop_open_connections:
  "drop (length (calls s)) (calls (open_connections s)) =
     map (dial (connections s))
       (filter (\<lambda>i. get_status (connections s ! i) = Closed) [0..<length (connections s)])"
  by (simp add: open_connections_calls [of s])

lemma queue_payload_calls:
  assumes "\<forall>out\<in>set os. get_status (connections s ! out) = Open \<longrightarrow>
             get_name (connections s ! out) \<in> dom (connection_buffers s)"
  shows "filter (\<lambda>c. \<not> is_log c) (calls (snd (queue_payload p st os s))) =
     filter (\<lambda>c. \<not> is_log c) (calls s) @
       concat (map (\<lambda>out. drop (length (calls s)) (calls (open_connections s)))
                 (filter (\<lambda>out. get_status (connections s ! out) \<noteq> Open) os))"
  using assms
proof (induction os arbitrary: s)
  case Nil
  then show ?case by simp
next
  case (Cons out os)
  let ?dials = "\<lambda>s. map (dial (connections s))
       (filter (\<lambda>i. get_status (connections s ! i) = Closed) [0..<length (connections s)])"
  show ?case
  proof (cases "get_status (connections s ! out) = Open")
    case False
    let ?s1 = "open_connections s"
    from False have step: "queue_payload_output p st out s = (None, ?s1)"
      by (rule queue_payload_output_closed)
    have same: "connections ?s1 = connections s"
      "connection_buffers ?s1 = connection_buffers s"
      by (simp_all add: open_connections_calls [of s])
    have c1: "calls ?s1 = calls s @ ?dials s"
      by (simp add: open_connections_calls [of s])
    from Cons.prems same have
      "\<forall>out\<in>set os. get_status (connections ?s1 ! out) = Open \<longrightarrow>
         get_name (connections ?s1 ! out) \<in> dom (connection_buffers ?s1)"
      by simp
    from Cons.IH [OF this] have
      "filter (\<lambda>c. \<not> is_log c) (calls (snd (queue_payload p st os ?s1))) =
         filter (\<lambda>c. \<not> is_log c) (calls ?s1) @
           concat (map (\<lambda>out. ?dials ?s1)
             (filter (\<lambda>out. get_status (connections ?s1 ! out) \<noteq> Open) os))"
      by (simp only: drop_open_connections)
    with step False show ?thesis
      by (simp add: drop_open_connections same c1)
  next
    case True
    with Cons.prems obtain b latched where
      buf: "connection_buffers s (get_name (connections s ! out)) = Some (b, latched)"
      by fastforce
    define s1 where "s1 = snd (queue_payload_output p st out s)"
    have step: "queue_payload_output p st out s = (None, s1)"
      unfolding s1_def by (simp add: queue_payload_output_open [OF True buf])
    have same: "connections s1 = connections s"
      "dom (connection_buffers s1) = dom (connection_buffers s)"
      "filter (\<lambda>c. \<not> is_log c) (calls s1) = filter (\<lambda>c. \<not> is_log c) (calls s)"
      using buf unfolding s1_def
      by (auto simp: queue_payload_output_open [OF True buf])
    from Cons.prems same have
      "\<forall>out\<in>set os. get_status (connections s1 ! out) = Open \<longrightarrow>
         get_name (connections s1 ! out) \<in> dom (connection_buffers s1)"
      by simp
    from Cons.IH [OF this] have
      "filter (\<lambda>c. \<not> is_log c) (calls (snd (queue_payload p st os s1))) =
         filter (\<lambda>c. \<not> is_log c) (calls s1) @
           concat (map (\<lambda>out. ?dials s1)
             (filter (\<lambda>out. get_status (connections s1 ! out) \<noteq> Open) os))"
      by (simp only: drop_open_connections)
    with step True show ?thesis
      by (simp add: drop_open_connections same)
  qed
qed

text \<open>
  Claim C4. Let a payload of a registered stream be received without error, and let
  every open output of the stream have a buffer. Then \<^verbatim>\<open>read_complete\<close> returns,
  and when it has returned: apart from log lines, the calls it has made are those that
  \<^verbatim>\<open>open_connections\<close> makes, once for each listing of an output of the stream that
  is not open, in the order of the outputs, followed by the \<^verbatim>\<open>async_receive\<close> of
  the re-armed read loop (input not of type \<^verbatim>\<open>Cdi\<close>, channel active); the buffer
  entry of every output of the stream that is not open, and of every name that is not
  the name of an open output of the stream, is as it was; the buffer of every open
  output is its old buffer after one \<^verbatim>\<open>enqueue\<close> of the payload for each time the
  output is listed for the stream; and the error counter of the stream and the payloads
  held by the buffers of the open outputs have together grown by the number of open
  outputs listed, so that each of them either holds the payload or is counted as one
  error.
\<close>

theorem read_complete_fan_out:
  assumes "get_stream ch (payload_stream_identifier payload) = Inr stream"
    and "get_stream_connections ch (payload_stream_identifier payload) Out = Inr outputs"
    and "\<forall>out\<in>set outputs. get_status (connections ch ! out) = Open \<longrightarrow>
           get_name (connections ch ! out) \<in> dom (connection_buffers ch)"
  shows "fst (read_complete connection 0 payload ch) = None \<and>
     filter (\<lambda>c. \<not> is_log c) (calls (snd (read_complete connection 0 payload ch))) =
       filter (\<lambda>c. \<not> is_log c) (calls ch) @
       concat (map (\<lambda>out. drop (length (calls ch)) (calls (open_connections ch)))
                 (filter (\<lambda>out. get_status (connections ch ! out) \<noteq> Open) outputs)) @
       (if get_type (connections ch ! connection) \<noteq> Cdi \<and> is_active ch
        then [AsyncReceive connection] else []) \<and>
     (\<forall>out\<in>set outputs. get_status (connections ch ! out) \<noteq> Open \<longrightarrow>
        connection_buffers (snd (read_complete connection 0 payload ch))
            (get_name (connections ch ! out)) =
          connection_buffers ch (get_name (connections ch ! out))) \<and>
     (\<forall>n. n \<notin> (\<lambda>out. get_name (connections ch ! out)) `
                 {out \<in> set outputs. get_status (connections ch ! out) = Open} \<longrightarrow>
        connection_buffers (snd (read_complete connection 0 payload ch)) n =
          connection_buffers ch n) \<and>
     (\<forall>out\<in>set outputs. get_status (connections ch ! out) = Open \<longrightarrow>
        (\<exists>b latched latched'.
           connection_buffers ch (get_name (connections ch ! out)) = Some (b, latched) \<and>
           connection_buffers (snd (read_complete connection 0 payload ch))
               (get_name (connections ch ! out)) =
             Some ((enqueue payload ^^ count_list outputs out) b, latched'))) \<and>
     payload_errors (streams (snd (read_complete connection 0 payload ch)) ! stream) +
       (\<Sum>n\<in>(\<lambda>out. get_name (connections ch ! out)) `
               {out \<in> set outputs. get_status (connections ch ! out) = Open}.
          queued (snd (read_complete connection 0 payload ch)) n) =
       payload_errors (streams ch ! stream) +
       (\<Sum>n\<in>(\<lambda>out. get_name (connections ch ! out)) `
               {out \<in> set outputs. get_status (connections ch ! out) = Open}.
          queued ch n) +
       length (filter (\<lambda>out. get_status (connections ch ! out) = Open) outputs)"
proof -
  let ?nm = "\<lambda>out. get_name (connections ch ! out)"
  let ?open = "\<lambda>out. get_status (connections ch ! out) = Open"
  let ?N = "?nm ` {out \<in> set outputs. ?open out}"
  define s1 where "s1 = snd (on_stream stream received_payload ch)"
  have c1: "calls s1 = calls ch" "active s1 = active ch"
    by (simp_all add: s1_def on_stream_def)
  have s1: "connections s1 = connections ch" "connection_buffers s1 = connection_buffers ch"
    "length (streams s1) = length (streams ch)"
    "payload_errors (streams s1 ! stream) = payload_errors (streams ch ! stream)"
    using get_stream_Inr [OF assms(1)]
    by (simp_all add: s1_def on_stream_def received_payload_def)
  then have q1: "queued s1 = queued ch"
    by (simp add: queued_def fun_eq_iff)
  have pair: "on_stream stream received_payload ch =
      (fst (on_stream stream received_payload ch), s1)"
    by (simp add: s1_def)
  have outs: "get_stream_connections s1 (payload_stream_identifier payload) Out = Inr outputs"
    using assms(2) s1(1) by (simp add: get_stream_connections_def s1_def on_stream_def)
  have "\<forall>out\<in>set outputs. get_status (connections s1 ! out) = Open \<longrightarrow>
          get_name (connections s1 ! out) \<in> dom (connection_buffers s1) \<inter> ?N"
    using assms(3) by (auto simp: s1)
  moreover have "stream < length (streams s1)"
    using get_stream_Inr [OF assms(1)] by (simp add: s1)
  moreover have "finite ?N" by simp
  ultimately obtain s2 where
    loop: "queue_payload payload stream outputs s1 = (None, s2)" and
    conns: "connections s2 = connections s1" and
    bufs: "\<forall>n. map_option fst (connection_buffers s2 n) =
           map_option
             (\<lambda>(b, latched).
                (enqueue payload ^^
                   count_list
                     (map (\<lambda>out. get_name (connections s1 ! out))
                        (filter (\<lambda>out. get_status (connections s1 ! out) = Open) outputs)) n) b)
             (connection_buffers s1 n)" and
    kept: "\<forall>n. n \<notin> (\<lambda>out. get_name (connections s1 ! out)) `
                 {out \<in> set outputs. get_status (connections s1 ! out) = Open} \<longrightarrow>
           connection_buffers s2 n = connection_buffers s1 n" and
    acc: "payload_errors (streams s2 ! stream) + sum (queued s2) ?N =
       payload_errors (streams s1 ! stream) + sum (queued s1) ?N +
         length (filter (\<lambda>out. get_status (connections s1 ! out) = Open) outputs)"
    using queue_payload_effect [of outputs s1 ?N stream payload] by blast
  define s3 where
    "s3 = (if get_type (connections s2 ! connection) \<noteq> Cdi
           then async_read connection 0 s2 else s2)"
  have s3: "connection_buffers s3 = connection_buffers s2" "streams s3 = streams s2"
    by (simp_all add: s3_def async_read_buffers)
  then have q3: "queued s3 = queued s2"
    by (simp add: queued_def fun_eq_iff)
  have "\<forall>out\<in>set outputs. get_status (connections s1 ! out) = Open \<longrightarrow>
          get_name (connections s1 ! out) \<in> dom (connection_buffers s1)"
    using assms(3) by (simp add: s1)
  moreover have "drop (length (calls s1)) (calls (open_connections s1)) =
      drop (length (calls ch)) (calls (open_connections ch))"
    by (simp only: drop_open_connections s1(1))
  ultimately have c2: "filter (\<lambda>c. \<not> is_log c) (calls s2) =
       filter (\<lambda>c. \<not> is_log c) (calls ch) @
       concat (map (\<lambda>out. drop (length (calls ch)) (calls (open_connections ch)))
                 (filter (\<lambda>out. get_status (connections ch ! out) \<noteq> Open) outputs))"
    using queue_payload_calls [of outputs s1 payload stream]
    by (simp add: loop s1(1) c1(1))
  have "unarmed 0 s1 s2"
    using unarmed_queue_payload [of 0 s1 payload stream outputs] by (simp add: loop)
  then have a2: "active s2 = active ch"
    by (simp add: unarmed_def c1)
  have c3: "filter (\<lambda>c. \<not> is_log c) (calls s3) =
       filter (\<lambda>c. \<not> is_log c) (calls ch) @
       concat (map (\<lambda>out. drop (length (calls ch)) (calls (open_connections ch)))
                 (filter (\<lambda>out. get_status (connections ch ! out) \<noteq> Open) outputs)) @
       (if get_type (connections ch ! connection) \<noteq> Cdi \<and> is_active ch
        then [AsyncReceive connection] else [])"
    by (simp add: s3_def async_read_def is_active_def emit_def a2 c2 conns s1)
  have rc: "read_complete connection 0 payload ch = (None, s3)"
    unfolding read_complete_def using assms(1)
    apply simp
    apply (subst pair)
    apply (simp add: outs loop s3_def)
    done
  have inj: "x = y" if "x \<in> set outputs" "y \<in> set outputs" "?nm x = ?nm y" for x y
  proof -
    have "Some x = find_if (\<lambda>c. get_name c = ?nm x) (connections ch)"
      by (rule get_stream_connections_named [OF assms(2) that(1), symmetric])
    also have "\<dots> = find_if (\<lambda>c. get_name c = ?nm y) (connections ch)"
      by (simp only: that(3))
    also have "\<dots> = Some y"
      by (rule get_stream_connections_named [OF assms(2) that(2)])
    finally show ?thesis
      by (simp only: option.inject)
  qed
  have closed: "connection_buffers s3 (?nm out) = connection_buffers ch (?nm out)"
    if "out \<in> set outputs" "\<not> ?open out" for out
  proof -
    have "?nm out \<notin> ?N"
      using that inj by blast
    with kept show ?thesis
      by (simp add: s1 s3)
  qed
  have opened: "\<exists>b latched latched'.
      connection_buffers ch (?nm out) = Some (b, latched) \<and>
      connection_buffers s3 (?nm out) =
        Some ((enqueue payload ^^ count_list outputs out) b, latched')"
    if "out \<in> set outputs" "?open out" for out
  proof -
    from assms(3) that obtain b latched where
      b: "connection_buffers ch (?nm out) = Some (b, latched)"
      by fastforce
    have "count_list (map ?nm (filter ?open outputs)) (?nm out) = count_list outputs out"
      using that inj by (intro count_list_names) auto
    with bufs [rule_format, of "?nm out"] b
    have "map_option fst (connection_buffers s3 (?nm out)) =
        Some ((enqueue payload ^^ count_list outputs out) b)"
      by (simp add: s1 s3)
    with b show ?thesis
      by (cases "connection_buffers s3 (?nm out)") auto
  qed
  from acc have "payload_errors (streams s3 ! stream) + sum (queued s3) ?N =
       payload_errors (streams ch ! stream) + sum (queued ch) ?N +
         length (filter ?open outputs)"
    by (simp add: s1 s3 q1 q3)
  moreover have "\<forall>n. n \<notin> ?N \<longrightarrow> connection_buffers s3 n = connection_buffers ch n"
    using kept by (simp add: s1 s3)
  ultimately show ?thesis
    unfolding rc using closed opened c3 by simp
qed

theorem read_complete_fan_out_witness:
  "get_stream example_full (payload_stream_identifier example_payload) = Inr 0 \<and>
   get_stream_connections example_full (payload_stream_identifier example_payload) Out =
     Inr [2] \<and>
   get_status (connections example_full ! 2) = Open \<and>
   connection_buffers example_full ''out0'' =
     Some (\<lparr>capacity = 5, buffer = replicate 5 example_payload\<rparr>, False) \<and>
   fst (read_complete 0 0 example_payload example_full) = None \<and>
   map_option fst
     (connection_buffers (snd (read_complete 0 0 example_payload example_full)) ''out0'') =
     Some \<lparr>capacity = 5, buffer = replicate 5 example_payload\<rparr> \<and>
   payload_errors (streams (snd (read_complete 0 0 example_payload example_full)) ! 0) = 1 \<and>
   connection_buffers example_open ''out0'' = Some (\<lparr>capacity = 5, buffer = []\<rparr>, False) \<and>
   map_option fst
     (connection_buffers (snd (read_complete 0 0 example_payload example_open)) ''out0'') =
     Some \<lparr>capacity = 5, buffer = [example_payload]\<rparr> \<and>
   payload_errors (streams (snd (read_complete 0 0 example_payload example_open)) ! 0) = 0 \<and>
   filter (\<lambda>c. \<not> is_log c) (calls (snd (read_complete 0 0 example_payload example_open))) =
     [AsyncReceive 0] \<and>
   get_stream_connections example_closed (payload_stream_identifier example_payload) Out =
     Inr [2] \<and>
   get_status (connections example_closed ! 2) = Closed \<and>
   fst (read_complete 0 0 example_payload example_closed) = None \<and>
   filter (\<lambda>c. \<not> is_log c) (calls (snd (read_complete 0 0 example_payload example_closed))) =
     [AsyncConnect 2, AsyncReceive 0] \<and>
   connection_buffers (snd (read_complete 0 0 example_payload example_closed)) ''out0'' =
     connection_buffers example_closed ''out0''"
proof -
  let ?full = "\<lparr>capacity = 5, buffer = replicate 5 example_payload\<rparr>"
  let ?empty = "\<lparr>capacity = 5, buffer = []\<rparr>"
  have conns: "connections example_full = connections example_open"
    by (simp add: example_full_def)
  have name: "get_name (connections example_open ! 2) = ''out0''"
    "get_status (connections example_open ! 2) = Open"
    by (simp_all add: example_open_eq Connection_new_def)
  have e0: "payload_errors (streams example_open ! 0) = 0"
    "payload_errors (streams example_full ! 0) = 0"
    by (simp_all add: example_full_def example_open_eq Stream_new_def)
  have s: "get_stream example_open (payload_stream_identifier example_payload) = Inr 0"
    "get_stream example_full (payload_stream_identifier example_payload) = Inr 0"
    by (simp_all add: example_full_def example_open_eq example_payload_def get_stream_def
        Stream_new_def)
  have c: "get_stream_connections example_open (payload_stream_identifier example_payload) Out =
      Inr [2]"
    "get_stream_connections example_full (payload_stream_identifier example_payload) Out =
      Inr [2]"
    by (simp_all add: example_full_def example_open_eq example_payload_def
        get_stream_connections_def right_equal_range_def Connection_new_def)
  have bf: "connection_buffers example_full ''out0'' = Some (?full, False)"
    by (simp add: example_full_def)
  have bo: "connection_buffers example_open ''out0'' = Some (?empty, False)"
    by (simp add: example_open_eq PayloadBuffer_new_def)
  have hf: "\<forall>out\<in>set [2]. get_status (connections example_full ! out) = Open \<longrightarrow>
      get_name (connections example_full ! out) \<in> dom (connection_buffers example_full)"
    using bf by (auto simp: conns name)
  have ho: "\<forall>out\<in>set [2]. get_status (connections example_open ! out) = Open \<longrightarrow>
      get_name (connections example_open ! out) \<in> dom (connection_buffers example_open)"
    using bo by (auto simp: name)
  let ?rf = "snd (read_complete 0 0 example_payload example_full)"
  let ?ro = "snd (read_complete 0 0 example_payload example_open)"
  have nf: "(\<lambda>out. get_name (connections example_full ! out)) `
      {out \<in> set [2]. get_status (connections example_full ! out) = Open} = {''out0''}"
    by (auto simp: conns name)
  have no: "(\<lambda>out. get_name (connections example_open ! out)) `
      {out \<in> set [2]. get_status (connections example_open ! out) = Open} = {''out0''}"
    by (auto simp: name)
  from read_complete_fan_out [OF s(2) c(2) hf, of 0, unfolded nf]
  have f: "fst (read_complete 0 0 example_payload example_full) = None"
    "\<exists>latched'. connection_buffers ?rf ''out0'' = Some (enqueue example_payload ?full, latched')"
    "payload_errors (streams ?rf ! 0) + queued ?rf ''out0'' = 6"
    using bf by (simp_all add: conns name e0 queued_def PayloadBuffer_size_def)
  have t0: "get_type (connections example_open ! 0) \<noteq> Cdi" "is_active example_open"
    "calls example_open = []"
    by (simp_all add: example_open_eq Connection_new_def is_active_def)
  from read_complete_fan_out [OF s(1) c(1) ho, of 0, unfolded no]
  have o: "\<exists>latched'. connection_buffers ?ro ''out0'' = Some (enqueue example_payload ?empty, latched')"
    "payload_errors (streams ?ro ! 0) + queued ?ro ''out0'' = 1"
    "filter (\<lambda>c. \<not> is_log c) (calls ?ro) = [AsyncReceive 0]"
    using bo by (simp_all add: name e0 t0 queued_def PayloadBuffer_size_def)
  let ?rc = "snd (read_complete 0 0 example_payload example_closed)"
  have cc: "connections example_closed =
      (connections example_open)[2 := (connections example_open ! 2)\<lparr>get_status := Closed\<rparr>]"
    "streams example_closed = streams example_open"
    "channel_map example_closed = channel_map example_open"
    "calls example_closed = []" "is_active example_closed"
    by (simp_all add: example_closed_def t0 is_active_def example_open_eq)
  have sc: "get_stream example_closed (payload_stream_identifier example_payload) = Inr 0"
    using s(1) by (simp add: get_stream_def cc)
  have oc: "get_stream_connections example_closed (payload_stream_identifier example_payload) Out =
      Inr [2]"
    by (simp add: example_closed_def example_open_eq example_payload_def
        get_stream_connections_def right_equal_range_def Connection_new_def)
  have stc: "get_status (connections example_closed ! 2) = Closed"
    "get_name (connections example_closed ! 2) = ''out0''"
    "get_type (connections example_closed ! 0) \<noteq> Cdi"
    by (simp_all add: example_closed_def example_open_eq Connection_new_def)
  have hc: "\<forall>out\<in>set [2]. get_status (connections example_closed ! out) = Open \<longrightarrow>
      get_name (connections example_closed ! out) \<in> dom (connection_buffers example_closed)"
    by (simp add: stc)
  have dc: "calls (open_connections example_closed) = [AsyncConnect 2]"
    unfolding open_connections_calls [of example_closed]
    by (simp add: dial_def example_closed_def example_open_eq Connection_new_def upt_rec)
  from read_complete_fan_out [OF sc oc hc, of 0]
  have cl: "fst (read_complete 0 0 example_payload example_closed) = None"
    "filter (\<lambda>c. \<not> is_log c) (calls ?rc) = [AsyncConnect 2, AsyncReceive 0]"
    "connection_buffers ?rc ''out0'' = connection_buffers example_closed ''out0''"
    by (simp_all add: stc cc(4,5) dc)
  have ef: "enqueue example_payload ?full = ?full"
    by (simp add: enqueue_def is_full_def PayloadBuffer_size_def)
  have eo: "enqueue example_payload ?empty = \<lparr>capacity = 5, buffer = [example_payload]\<rparr>"
    by (simp add: enqueue_def is_full_def PayloadBuffer_size_def)
  from f(2) ef have bf': "map_option fst (connection_buffers ?rf ''out0'') = Some ?full"
    by auto
  from f(2) ef have "queued ?rf ''out0'' = 5"
    by (auto simp: queued_def PayloadBuffer_size_def)
  with f(3) have errf: "payload_errors (streams ?rf ! 0) = 1" by simp
  from o(1) eo have bo': "map_option fst (connection_buffers ?ro ''out0'') =
      Some \<lparr>capacity = 5, buffer = [example_payload]\<rparr>"
    by auto
  from o(1) eo have "queued ?ro ''out0'' = 1"
    by (auto simp: queued_def PayloadBuffer_size_def)
  with o(2) have erro: "payload_errors (streams ?ro ! 0) = 0" by simp
  from s(2) c(2) name(2) bf f(1) bf' errf bo bo' erro o(3) oc stc(1) cl show ?thesis
    by (simp add: conns)
qed

end
